theory Spec2Isabelle
  imports Complex_Main "HOL-Library.Word" "HOL-Library.Log_Nat"
begin

unbundle bit_operations_syntax

section \<open>Colours, device state and faults\<close>

text \<open>
  \<^verbatim>\<open>struct StripColor { uint8_t red = 0; uint8_t green = 0; uint8_t blue = 0; }\<close>
  of \<^verbatim>\<open>circular_strip.h\<close>. Isabelle does not accept a name that ends in an underscore, so the
  members \<^verbatim>\<open>colors_\<close>, \<^verbatim>\<open>led_strip_\<close>, ... of the classes lose theirs below.
\<close>

record StripColor =
  red :: "8 word"
  green :: "8 word"
  blue :: "8 word"

definition black :: StripColor where
  "black = \<lparr>red = 0, green = 0, blue = 0\<rparr>"

text \<open>
  Modelled from the spec: the enumeration of \<^verbatim>\<open>device_state.h\<close> and the accessors
  \<^verbatim>\<open>GetDeviceState\<close> and \<^verbatim>\<open>IsVoiceDetected\<close> of the application singleton
  (\<^verbatim>\<open>application.h\<close>), which the LED classes only read. The values are the ten the
  spec lists: the nine the \<^verbatim>\<open>switch\<close> statements name, and \<^verbatim>\<open>unknown\<close>, which takes their
  \<^verbatim>\<open>default\<close> branch.
\<close>

datatype DeviceState =
  kDeviceStateUnknown
  | kDeviceStateStarting
  | kDeviceStateWifiConfiguring
  | kDeviceStateIdle
  | kDeviceStateConnecting
  | kDeviceStateListening
  | kDeviceStateSpeaking
  | kDeviceStateUpgrading
  | kDeviceStateActivating
  | kDeviceStateAudioTesting

record Application =
  GetDeviceState :: DeviceState
  IsVoiceDetected :: bool

text \<open>
  What C++ leaves undefined is a value of the model: a write past the end of
  \<^verbatim>\<open>std::vector\<close> and an integer remainder by zero.
\<close>

datatype fault = OutOfBoundsWrite | DivideByZero

section \<open>The pixel ring: \<^verbatim>\<open>CircularStrip\<close>\<close>

text \<open>
  The calls an operation makes, in program order: taking and releasing \<^verbatim>\<open>mutex_\<close>
  (the constructor and destructor of \<^verbatim>\<open>std::lock_guard\<close>), the timer calls, a store into
  \<^verbatim>\<open>colors_[i]\<close>, the driver calls, and a logged warning.
\<close>

datatype event =
  Acquire
  | Release
  | TimerStop
  | TimerStart int
  | BufWrite nat
  | SetPixel nat
  | Refresh
  | Clear
  | LogW

text \<open>
  The closure stored in \<^verbatim>\<open>strip_callback_\<close>, with what each lambda captures by value
  (all of them capture \<^verbatim>\<open>this\<close>).
\<close>

datatype step =
  BlinkStep
  | FadeOutStep
  | BreatheStep StripColor StripColor
  | ScrollStep StripColor StripColor int

text \<open>
  The object, the two resources it owns and the \<^verbatim>\<open>static\<close> locals of its lambdas.
  \<^item> \<open>led_strip\<close> is whether the handle is non-null; \<open>pixel_buf\<close> is the driver's
    pixel memory and \<open>shown\<close> what was last transmitted to the LEDs.
  \<^item> \<open>timer_active\<close> and \<open>timer_period_us\<close> are the state of \<^verbatim>\<open>strip_timer_\<close>.
  \<^item> \<open>blink_on\<close> is \<^verbatim>\<open>static bool on = true\<close>, \<open>breathe_increase\<close> is
    \<^verbatim>\<open>static bool increase = true\<close>, \<open>scroll_offset\<close> is \<^verbatim>\<open>static int offset = 0\<close>;
    \<open>breathe_color\<close> is \<^verbatim>\<open>static StripColor color = low\<close>, which C++ initialises
    the first time control passes through the declaration: \<open>None\<close> until then.
  \<^item> \<open>trace\<close> records the calls made so far.
  \<^verbatim>\<open>max_leds_\<close> is the length of \<^verbatim>\<open>colors_\<close>: the constructor resizes the vector to it
  and nothing resizes it again. The statics belong to the lambda expressions, not to
  the object or to the closure: every installation and every ring of a program share
  them. The record holds them beside the members of one ring, the one that runs.
\<close>

record CircularStrip =
  led_strip :: bool
  colors :: "StripColor list"
  strip_callback :: "step option"
  default_brightness :: "8 word"
  low_brightness :: "8 word"
  timer_active :: bool
  timer_period_us :: int
  pixel_buf :: "StripColor list"
  shown :: "StripColor list"
  blink_on :: bool
  breathe_increase :: bool
  breathe_color :: "StripColor option"
  scroll_offset :: nat
  trace :: "event list"

definition max_leds :: "CircularStrip \<Rightarrow> nat" where
  "max_leds s = length (colors s)"

subsection \<open>The mutex, the timer and the driver\<close>

definition lock_guard :: "CircularStrip \<Rightarrow> CircularStrip" where
  "lock_guard s = s\<lparr>trace := trace s @ [Acquire]\<rparr>"

definition unlock :: "CircularStrip \<Rightarrow> CircularStrip" where
  "unlock s = s\<lparr>trace := trace s @ [Release]\<rparr>"

text \<open>
  The timer is a library: \<^verbatim>\<open>esp_timer_stop\<close> leaves it inactive, and
  \<^verbatim>\<open>esp_timer_start_periodic\<close> active with the given period in microseconds.
\<close>

definition esp_timer_stop :: "CircularStrip \<Rightarrow> CircularStrip" where
  "esp_timer_stop s = s\<lparr>timer_active := False, trace := trace s @ [TimerStop]\<rparr>"

definition esp_timer_start_periodic :: "int \<Rightarrow> CircularStrip \<Rightarrow> CircularStrip" where
  "esp_timer_start_periodic period s =
     s\<lparr>timer_active := True, timer_period_us := period, trace := trace s @ [TimerStart period]\<rparr>"

text \<open>\<^verbatim>\<open>colors_[i] = c\<close> for an index inside the vector.\<close>

definition set_color :: "nat \<Rightarrow> StripColor \<Rightarrow> CircularStrip \<Rightarrow> CircularStrip" where
  "set_color i c s = s\<lparr>colors := (colors s)[i := c], trace := trace s @ [BufWrite i]\<rparr>"

text \<open>
  The driver of the LED strip is a library: \<^verbatim>\<open>led_strip_set_pixel\<close> stores into the
  driver's memory and rejects an index outside the strip, \<^verbatim>\<open>led_strip_refresh\<close>
  transmits that memory, \<^verbatim>\<open>led_strip_clear\<close> zeroes it and transmits.
\<close>

definition led_strip_set_pixel :: "nat \<Rightarrow> StripColor \<Rightarrow> CircularStrip \<Rightarrow> CircularStrip" where
  "led_strip_set_pixel i c s =
     (if i < length (pixel_buf s)
      then s\<lparr>pixel_buf := (pixel_buf s)[i := c], trace := trace s @ [SetPixel i]\<rparr>
      else s\<lparr>trace := trace s @ [SetPixel i]\<rparr>)"

definition led_strip_refresh :: "CircularStrip \<Rightarrow> CircularStrip" where
  "led_strip_refresh s = s\<lparr>shown := pixel_buf s, trace := trace s @ [Refresh]\<rparr>"

definition led_strip_clear :: "CircularStrip \<Rightarrow> CircularStrip" where
  "led_strip_clear s =
     s\<lparr>pixel_buf := replicate (length (pixel_buf s)) black,
       shown := replicate (length (pixel_buf s)) black,
       trace := trace s @ [Clear]\<rparr>"

subsection \<open>Construction\<close>

text \<open>
  The statics of the three lambdas are not members: the constructor does not touch them,
  and a ring starts with the values the process holds when it is built. They are the
  second argument of the model's constructor. \<open>program_start\<close> holds the values of their
  initialisers, which they have as long as no tick of the lambda has run in the process.
\<close>

record statics =
  static_on :: bool
  static_increase :: bool
  static_color :: "StripColor option"
  static_offset :: nat

definition program_start :: statics where
  "program_start =
     \<lparr>static_on = True, static_increase = True, static_color = None, static_offset = 0\<rparr>"

definition CircularStrip_ctor :: "8 word \<Rightarrow> statics \<Rightarrow> CircularStrip" where
  "CircularStrip_ctor n ps =
     \<lparr>led_strip = True,
      colors = replicate (unat n) black,
      strip_callback = None,
      default_brightness = 32,
      low_brightness = 4,
      timer_active = False,
      timer_period_us = 0,
      pixel_buf = replicate (unat n) black,
      shown = replicate (unat n) black,
      blink_on = static_on ps,
      breathe_increase = static_increase ps,
      breathe_color = static_color ps,
      scroll_offset = static_offset ps,
      trace = [Clear]\<rparr>"

subsection \<open>Solid colours\<close>

definition CircularStrip_SetAllColor :: "StripColor \<Rightarrow> CircularStrip \<Rightarrow> CircularStrip" where
  "CircularStrip_SetAllColor color s =
     unlock (led_strip_refresh
       (foldl (\<lambda>s i. led_strip_set_pixel i color (set_color i color s))
          (esp_timer_stop (lock_guard s)) [0..<max_leds s]))"

text \<open>
  \<^verbatim>\<open>SetSingleColor\<close> has no range check: with \<open>index\<close> outside the vector the store
  \<^verbatim>\<open>colors_[index] = color\<close> is undefined behaviour, reached after the lock is taken and
  the timer stopped.
\<close>

definition CircularStrip_SetSingleColor ::
  "8 word \<Rightarrow> StripColor \<Rightarrow> CircularStrip \<Rightarrow> fault + CircularStrip" where
  "CircularStrip_SetSingleColor index color s =
     (let s1 = esp_timer_stop (lock_guard s) in
      if unat index < length (colors s1)
      then Inr (unlock (led_strip_refresh
                  (led_strip_set_pixel (unat index) color (set_color (unat index) color s1))))
      else Inl OutOfBoundsWrite)"

subsection \<open>Installing an animation step\<close>

definition CircularStrip_StartStripTask :: "int \<Rightarrow> step \<Rightarrow> CircularStrip \<Rightarrow> CircularStrip" where
  "CircularStrip_StartStripTask interval_ms cb s =
     (if \<not> led_strip s then s
      else unlock (esp_timer_start_periodic (interval_ms * 1000)
             ((esp_timer_stop (lock_guard s))\<lparr>strip_callback := Some cb\<rparr>)))"

definition CircularStrip_Blink :: "StripColor \<Rightarrow> int \<Rightarrow> CircularStrip \<Rightarrow> CircularStrip" where
  "CircularStrip_Blink color interval_ms s =
     CircularStrip_StartStripTask interval_ms BlinkStep
       (foldl (\<lambda>s i. set_color i color s) s [0..<max_leds s])"

definition CircularStrip_FadeOut :: "int \<Rightarrow> CircularStrip \<Rightarrow> CircularStrip" where
  "CircularStrip_FadeOut interval_ms s = CircularStrip_StartStripTask interval_ms FadeOutStep s"

definition CircularStrip_Breathe ::
  "StripColor \<Rightarrow> StripColor \<Rightarrow> int \<Rightarrow> CircularStrip \<Rightarrow> CircularStrip" where
  "CircularStrip_Breathe low high interval_ms s =
     CircularStrip_StartStripTask interval_ms (BreatheStep low high) s"

definition CircularStrip_Scroll ::
  "StripColor \<Rightarrow> StripColor \<Rightarrow> int \<Rightarrow> int \<Rightarrow> CircularStrip \<Rightarrow> CircularStrip" where
  "CircularStrip_Scroll low high len interval_ms s =
     CircularStrip_StartStripTask interval_ms (ScrollStep low high len)
       (foldl (\<lambda>s i. set_color i low s) s [0..<max_leds s])"

subsection \<open>The bodies of the four lambdas\<close>

text \<open>All \<^verbatim>\<open>max_leds_\<close> pixels of the driver take the colours of the buffer.\<close>

definition show_colors :: "CircularStrip \<Rightarrow> CircularStrip" where
  "show_colors s = foldl (\<lambda>s i. led_strip_set_pixel i (colors s ! i) s) s [0..<max_leds s]"

definition Blink_step :: "CircularStrip \<Rightarrow> CircularStrip" where
  "Blink_step s =
     (let s1 = (if blink_on s then led_strip_refresh (show_colors s) else led_strip_clear s)
      in s1\<lparr>blink_on := \<not> blink_on s\<rparr>)"

definition halve :: "StripColor \<Rightarrow> StripColor" where
  "halve c = \<lparr>red = red c div 2, green = green c div 2, blue = blue c div 2\<rparr>"

text \<open>One pass of the loop of the fade-out lambda; the flag is its local \<^verbatim>\<open>all_off\<close>.\<close>

definition FadeOut_body :: "bool \<times> CircularStrip \<Rightarrow> nat \<Rightarrow> bool \<times> CircularStrip" where
  "FadeOut_body acc i =
     (let all_off = fst acc; s = snd acc;
          c = halve (colors s ! i);
          s1 = set_color i c s;
          all_off1 = (if red c \<noteq> 0 \<or> green c \<noteq> 0 \<or> blue c \<noteq> 0 then False else all_off)
      in (all_off1, led_strip_set_pixel i c s1))"

definition FadeOut_step :: "CircularStrip \<Rightarrow> CircularStrip" where
  "FadeOut_step s =
     (let r = foldl FadeOut_body (True, s) [0..<max_leds s]
      in if fst r then esp_timer_stop (led_strip_clear (snd r))
         else led_strip_refresh (snd r))"

text \<open>
  One tick of the breathing lambda on its two statics: \<open>color\<close> is the value of the
  static at entry (after its initialisation), the result is the pair at exit.
\<close>

definition Breathe_next :: "StripColor \<Rightarrow> StripColor \<Rightarrow> bool \<times> StripColor \<Rightarrow> bool \<times> StripColor" where
  "Breathe_next low high st =
     (let increase = fst st; color = snd st in
      if increase then
        (let r = (if red color < red high then red color + 1 else red color);
             g = (if green color < green high then green color + 1 else green color);
             b = (if blue color < blue high then blue color + 1 else blue color)
         in (if r = red high \<and> g = green high \<and> b = blue high then False else increase,
             \<lparr>red = r, green = g, blue = b\<rparr>))
      else
        (let r = (if red color > red low then red color - 1 else red color);
             g = (if green color > green low then green color - 1 else green color);
             b = (if blue color > blue low then blue color - 1 else blue color)
         in (if r = red low \<and> g = green low \<and> b = blue low then True else increase,
             \<lparr>red = r, green = g, blue = b\<rparr>)))"

definition Breathe_step :: "StripColor \<Rightarrow> StripColor \<Rightarrow> CircularStrip \<Rightarrow> CircularStrip" where
  "Breathe_step low high s =
     (let color0 = (case breathe_color s of None \<Rightarrow> low | Some c \<Rightarrow> c);
          st = Breathe_next low high (breathe_increase s, color0);
          s1 = s\<lparr>breathe_increase := fst st, breathe_color := Some (snd st)\<rparr>;
          s2 = foldl (\<lambda>s i. led_strip_set_pixel i (snd st) s) s1 [0..<max_leds s1]
      in led_strip_refresh s2)"

text \<open>
  The scrolling lambda computes \<^verbatim>\<open>(offset + j) % max_leds_\<close> and
  \<^verbatim>\<open>(offset + 1) % max_leds_\<close>: with no pixels the second remainder always divides by
  zero.
\<close>

definition Scroll_step ::
  "StripColor \<Rightarrow> StripColor \<Rightarrow> int \<Rightarrow> CircularStrip \<Rightarrow> fault + CircularStrip" where
  "Scroll_step low high len s =
     (let n = max_leds s; offset = scroll_offset s;
          s1 = foldl (\<lambda>s i. set_color i low s) s [0..<n]
      in if n = 0 then Inl DivideByZero
         else
           (let s2 = foldl (\<lambda>s j. set_color ((offset + j) mod n) high s) s1 [0..<nat len];
                s3 = led_strip_refresh (show_colors s2)
            in Inr (s3\<lparr>scroll_offset := (offset + 1) mod n\<rparr>)))"

definition run_step :: "step \<Rightarrow> CircularStrip \<Rightarrow> fault + CircularStrip" where
  "run_step cb s =
     (case cb of
        BlinkStep \<Rightarrow> Inr (Blink_step s)
      | FadeOutStep \<Rightarrow> Inr (FadeOut_step s)
      | BreatheStep low high \<Rightarrow> Inr (Breathe_step low high s)
      | ScrollStep low high len \<Rightarrow> Scroll_step low high len s)"

subsection \<open>Timer ticks\<close>

text \<open>
  The callback registered in the constructor: it takes the lock and runs the installed
  step, if there is one. Calling it is delivering one tick by hand.
\<close>

definition timer_callback :: "CircularStrip \<Rightarrow> fault + CircularStrip" where
  "timer_callback s =
     (let s1 = lock_guard s in
      case strip_callback s1 of
        None \<Rightarrow> Inr (unlock s1)
      | Some cb \<Rightarrow> (case run_step cb s1 of Inl e \<Rightarrow> Inl e | Inr s2 \<Rightarrow> Inr (unlock s2)))"

text \<open>One period of \<^verbatim>\<open>strip_timer_\<close> elapses: a stopped timer delivers nothing.\<close>

definition timer_tick :: "CircularStrip \<Rightarrow> fault + CircularStrip" where
  "timer_tick s = (if timer_active s then timer_callback s else Inr s)"

primrec ticks :: "nat \<Rightarrow> CircularStrip \<Rightarrow> fault + CircularStrip" where
  "ticks 0 s = Inr s"
| "ticks (Suc k) s = (case timer_tick s of Inl e \<Rightarrow> Inl e | Inr s1 \<Rightarrow> ticks k s1)"

subsection \<open>State binding\<close>

definition CircularStrip_OnStateChanged :: "Application \<Rightarrow> CircularStrip \<Rightarrow> CircularStrip" where
  "CircularStrip_OnStateChanged app s =
     (let lo = low_brightness s; hi = default_brightness s in
      case GetDeviceState app of
        kDeviceStateStarting \<Rightarrow>
          CircularStrip_Scroll black \<lparr>red = lo, green = lo, blue = hi\<rparr> 3 100 s
      | kDeviceStateWifiConfiguring \<Rightarrow>
          CircularStrip_Blink \<lparr>red = lo, green = lo, blue = hi\<rparr> 500 s
      | kDeviceStateIdle \<Rightarrow> CircularStrip_FadeOut 50 s
      | kDeviceStateConnecting \<Rightarrow>
          CircularStrip_SetAllColor \<lparr>red = lo, green = lo, blue = hi\<rparr> s
      | kDeviceStateListening \<Rightarrow>
          CircularStrip_SetAllColor \<lparr>red = hi, green = lo, blue = lo\<rparr> s
      | kDeviceStateAudioTesting \<Rightarrow>
          CircularStrip_SetAllColor \<lparr>red = hi, green = lo, blue = lo\<rparr> s
      | kDeviceStateSpeaking \<Rightarrow>
          CircularStrip_SetAllColor \<lparr>red = lo, green = hi, blue = lo\<rparr> s
      | kDeviceStateUpgrading \<Rightarrow>
          CircularStrip_Blink \<lparr>red = lo, green = hi, blue = lo\<rparr> 100 s
      | kDeviceStateActivating \<Rightarrow>
          CircularStrip_Blink \<lparr>red = lo, green = hi, blue = lo\<rparr> 500 s
      | _ \<Rightarrow> s\<lparr>trace := trace s @ [LogW]\<rparr>)"

definition CircularStrip_SetBrightness :: "8 word \<Rightarrow> 8 word \<Rightarrow> Application \<Rightarrow> CircularStrip \<Rightarrow> CircularStrip" where
  "CircularStrip_SetBrightness default_b low_b app s =
     CircularStrip_OnStateChanged app (s\<lparr>default_brightness := default_b, low_brightness := low_b\<rparr>)"

section \<open>The single pixel: \<^verbatim>\<open>SingleLed\<close>\<close>

text \<open>
  The members of \<^verbatim>\<open>SingleLed\<close> carry the prefix \<open>sl\<close>: \<open>sl_r\<close>, \<open>sl_g\<close>, \<open>sl_b\<close>
  are \<^verbatim>\<open>r_\<close>, \<^verbatim>\<open>g_\<close>, \<^verbatim>\<open>b_\<close>. \<^verbatim>\<open>blink_counter_\<close> is a 32-bit \<^verbatim>\<open>int\<close>; its
  arithmetic is two's complement, so \<^verbatim>\<open>times * 2\<close> (the parameter is \<open>n_times\<close> here) and \<^verbatim>\<open>blink_counter_--\<close> wrap around
  as the machine instructions do. \<open>sl_pixel\<close> is the driver's memory for the one pixel,
  \<open>sl_shown\<close> what the LED shows.
\<close>

record SingleLed =
  sl_led_strip :: bool
  sl_r :: "8 word"
  sl_g :: "8 word"
  sl_b :: "8 word"
  sl_blink_counter :: "32 word"
  sl_blink_interval_ms :: int
  sl_timer_active :: bool
  sl_timer_period_us :: int
  sl_pixel :: StripColor
  sl_shown :: StripColor

definition SingleLed_ctor :: SingleLed where
  "SingleLed_ctor =
     \<lparr>sl_led_strip = True, sl_r = 0, sl_g = 0, sl_b = 0,
      sl_blink_counter = 0, sl_blink_interval_ms = 0,
      sl_timer_active = False, sl_timer_period_us = 0,
      sl_pixel = black, sl_shown = black\<rparr>"

definition SingleLed_SetColor :: "8 word \<Rightarrow> 8 word \<Rightarrow> 8 word \<Rightarrow> SingleLed \<Rightarrow> SingleLed" where
  "SingleLed_SetColor r g b s = s\<lparr>sl_r := r, sl_g := g, sl_b := b\<rparr>"

text \<open>\<^verbatim>\<open>led_strip_set_pixel(led_strip_, 0, r_, g_, b_); led_strip_refresh(led_strip_)\<close>\<close>

definition sl_show :: "SingleLed \<Rightarrow> SingleLed" where
  "sl_show s =
     s\<lparr>sl_pixel := \<lparr>red = sl_r s, green = sl_g s, blue = sl_b s\<rparr>,
       sl_shown := \<lparr>red = sl_r s, green = sl_g s, blue = sl_b s\<rparr>\<rparr>"

text \<open>\<^verbatim>\<open>led_strip_clear(led_strip_)\<close>\<close>

definition sl_clear :: "SingleLed \<Rightarrow> SingleLed" where
  "sl_clear s = s\<lparr>sl_pixel := black, sl_shown := black\<rparr>"

definition SingleLed_TurnOn :: "SingleLed \<Rightarrow> SingleLed" where
  "SingleLed_TurnOn s =
     (if \<not> sl_led_strip s then s else sl_show (s\<lparr>sl_timer_active := False\<rparr>))"

definition SingleLed_TurnOff :: "SingleLed \<Rightarrow> SingleLed" where
  "SingleLed_TurnOff s =
     (if \<not> sl_led_strip s then s else sl_clear (s\<lparr>sl_timer_active := False\<rparr>))"

definition SingleLed_StartBlinkTask :: "32 word \<Rightarrow> int \<Rightarrow> SingleLed \<Rightarrow> SingleLed" where
  "SingleLed_StartBlinkTask n_times interval_ms s =
     (if \<not> sl_led_strip s then s
      else s\<lparr>sl_blink_counter := n_times * 2,
             sl_blink_interval_ms := interval_ms,
             sl_timer_active := True,
             sl_timer_period_us := interval_ms * 1000\<rparr>)"

definition SingleLed_Blink :: "32 word \<Rightarrow> int \<Rightarrow> SingleLed \<Rightarrow> SingleLed" where
  "SingleLed_Blink n_times interval_ms s = SingleLed_StartBlinkTask n_times interval_ms s"

definition SingleLed_BlinkOnce :: "SingleLed \<Rightarrow> SingleLed" where
  "SingleLed_BlinkOnce s = SingleLed_Blink 1 100 s"

text \<open>\<^verbatim>\<open>BLINK_INFINITE\<close> is \<open>-1\<close>.\<close>

definition SingleLed_StartContinuousBlink :: "int \<Rightarrow> SingleLed \<Rightarrow> SingleLed" where
  "SingleLed_StartContinuousBlink interval_ms s = SingleLed_StartBlinkTask (- 1) interval_ms s"

definition SingleLed_OnBlinkTimer :: "SingleLed \<Rightarrow> SingleLed" where
  "SingleLed_OnBlinkTimer s =
     (let s1 = s\<lparr>sl_blink_counter := sl_blink_counter s - 1\<rparr> in
      if sl_blink_counter s1 AND 1 \<noteq> 0 then sl_show s1
      else
        (let s2 = sl_clear s1 in
         if sl_blink_counter s2 = 0 then s2\<lparr>sl_timer_active := False\<rparr> else s2))"

text \<open>One period of \<^verbatim>\<open>blink_timer_\<close> elapses: a stopped timer delivers nothing.\<close>

definition SingleLed_tick :: "SingleLed \<Rightarrow> SingleLed" where
  "SingleLed_tick s = (if sl_timer_active s then SingleLed_OnBlinkTimer s else s)"

primrec SingleLed_ticks :: "nat \<Rightarrow> SingleLed \<Rightarrow> SingleLed" where
  "SingleLed_ticks 0 s = s"
| "SingleLed_ticks (Suc k) s = SingleLed_ticks k (SingleLed_tick s)"

text \<open>
  The brightness macros of \<^verbatim>\<open>single_led.cc\<close>: \<^verbatim>\<open>DEFAULT_BRIGHTNESS\<close> 4,
  \<^verbatim>\<open>HIGH_BRIGHTNESS\<close> 16, \<^verbatim>\<open>LOW_BRIGHTNESS\<close> 2.
\<close>

definition SingleLed_OnStateChanged :: "Application \<Rightarrow> SingleLed \<Rightarrow> SingleLed" where
  "SingleLed_OnStateChanged app s =
     (case GetDeviceState app of
        kDeviceStateStarting \<Rightarrow> SingleLed_StartContinuousBlink 100 (SingleLed_SetColor 0 0 4 s)
      | kDeviceStateWifiConfiguring \<Rightarrow> SingleLed_StartContinuousBlink 500 (SingleLed_SetColor 0 0 4 s)
      | kDeviceStateIdle \<Rightarrow> SingleLed_TurnOff s
      | kDeviceStateConnecting \<Rightarrow> SingleLed_TurnOn (SingleLed_SetColor 0 0 4 s)
      | kDeviceStateListening \<Rightarrow>
          SingleLed_TurnOn
            (if IsVoiceDetected app then SingleLed_SetColor 16 0 0 s else SingleLed_SetColor 2 0 0 s)
      | kDeviceStateAudioTesting \<Rightarrow>
          SingleLed_TurnOn
            (if IsVoiceDetected app then SingleLed_SetColor 16 0 0 s else SingleLed_SetColor 2 0 0 s)
      | kDeviceStateSpeaking \<Rightarrow> SingleLed_TurnOn (SingleLed_SetColor 0 4 0 s)
      | kDeviceStateUpgrading \<Rightarrow> SingleLed_StartContinuousBlink 100 (SingleLed_SetColor 0 4 0 s)
      | kDeviceStateActivating \<Rightarrow> SingleLed_StartContinuousBlink 500 (SingleLed_SetColor 0 4 0 s)
      | _ \<Rightarrow> s)"

section \<open>The PWM LED: \<^verbatim>\<open>GpioLed\<close>\<close>

text \<open>
  The members of \<^verbatim>\<open>GpioLed\<close> carry the prefix \<open>gl\<close>. The LEDC peripheral is a
  library: \<open>ledc_duty\<close> is the duty last given to \<^verbatim>\<open>ledc_set_duty\<close>, \<open>ledc_output\<close>
  the duty the channel puts out, which \<^verbatim>\<open>ledc_update_duty\<close> takes from it;
  \<open>ledc_fading\<close> tells whether a hardware fade towards \<open>ledc_fade_target\<close> runs.
\<close>

record GpioLed =
  gl_ledc_initialized :: bool
  gl_duty :: "32 word"
  gl_blink_counter :: "32 word"
  gl_blink_interval_ms :: int
  gl_fade_up :: bool
  gl_timer_active :: bool
  gl_timer_period_us :: int
  ledc_duty :: "32 word"
  ledc_output :: "32 word"
  ledc_fade_target :: "32 word"
  ledc_fade_time_ms :: int
  ledc_fading :: bool

definition LEDC_DUTY :: "32 word" where
  "LEDC_DUTY = 8191"

definition LEDC_FADE_TIME :: int where
  "LEDC_FADE_TIME = 1000"

definition GpioLed_ctor :: GpioLed where
  "GpioLed_ctor =
     \<lparr>gl_ledc_initialized = True, gl_duty = 0, gl_blink_counter = 0, gl_blink_interval_ms = 0,
      gl_fade_up = True, gl_timer_active = False, gl_timer_period_us = 0,
      ledc_duty = 0, ledc_output = 0, ledc_fade_target = 0, ledc_fade_time_ms = 0,
      ledc_fading = False\<rparr>"

definition ledc_set_duty :: "32 word \<Rightarrow> GpioLed \<Rightarrow> GpioLed" where
  "ledc_set_duty d s = s\<lparr>ledc_duty := d\<rparr>"

definition ledc_update_duty :: "GpioLed \<Rightarrow> GpioLed" where
  "ledc_update_duty s = s\<lparr>ledc_output := ledc_duty s\<rparr>"

definition ledc_fade_stop :: "GpioLed \<Rightarrow> GpioLed" where
  "ledc_fade_stop s = s\<lparr>ledc_fading := False\<rparr>"

definition ledc_set_fade_with_time :: "32 word \<Rightarrow> int \<Rightarrow> GpioLed \<Rightarrow> GpioLed" where
  "ledc_set_fade_with_time target time_ms s =
     s\<lparr>ledc_fade_target := target, ledc_fade_time_ms := time_ms\<rparr>"

definition ledc_fade_start :: "GpioLed \<Rightarrow> GpioLed" where
  "ledc_fade_start s = s\<lparr>ledc_fading := True\<rparr>"

definition gl_timer_stop :: "GpioLed \<Rightarrow> GpioLed" where
  "gl_timer_stop s = s\<lparr>gl_timer_active := False\<rparr>"

text \<open>
  \<^verbatim>\<open>brightness * LEDC_DUTY / 100\<close> is computed in \<^verbatim>\<open>int\<close> from a \<^verbatim>\<open>uint8_t\<close>: at most
  \<open>255 * 8191\<close>, so nothing wraps, and stored into the \<^verbatim>\<open>uint32_t duty_\<close>.
\<close>

definition GpioLed_SetBrightness :: "8 word \<Rightarrow> GpioLed \<Rightarrow> GpioLed" where
  "GpioLed_SetBrightness brightness s =
     (if brightness = 100 then s\<lparr>gl_duty := LEDC_DUTY\<rparr>
      else s\<lparr>gl_duty := of_nat (unat brightness * unat LEDC_DUTY div 100)\<rparr>)"

definition GpioLed_TurnOn :: "GpioLed \<Rightarrow> GpioLed" where
  "GpioLed_TurnOn s =
     (if \<not> gl_ledc_initialized s then s
      else ledc_update_duty (ledc_set_duty (gl_duty s) (ledc_fade_stop (gl_timer_stop s))))"

definition GpioLed_TurnOff :: "GpioLed \<Rightarrow> GpioLed" where
  "GpioLed_TurnOff s =
     (if \<not> gl_ledc_initialized s then s
      else ledc_update_duty (ledc_set_duty 0 (ledc_fade_stop (gl_timer_stop s))))"

definition GpioLed_StartBlinkTask :: "32 word \<Rightarrow> int \<Rightarrow> GpioLed \<Rightarrow> GpioLed" where
  "GpioLed_StartBlinkTask n_times interval_ms s =
     (if \<not> gl_ledc_initialized s then s
      else (ledc_fade_stop (gl_timer_stop s))
             \<lparr>gl_blink_counter := n_times * 2,
              gl_blink_interval_ms := interval_ms,
              gl_timer_active := True,
              gl_timer_period_us := interval_ms * 1000\<rparr>)"

definition GpioLed_Blink :: "32 word \<Rightarrow> int \<Rightarrow> GpioLed \<Rightarrow> GpioLed" where
  "GpioLed_Blink n_times interval_ms s = GpioLed_StartBlinkTask n_times interval_ms s"

definition GpioLed_BlinkOnce :: "GpioLed \<Rightarrow> GpioLed" where
  "GpioLed_BlinkOnce s = GpioLed_Blink 1 100 s"

definition GpioLed_StartContinuousBlink :: "int \<Rightarrow> GpioLed \<Rightarrow> GpioLed" where
  "GpioLed_StartContinuousBlink interval_ms s = GpioLed_StartBlinkTask (- 1) interval_ms s"


definition GpioLed_StartFadeTask :: "GpioLed \<Rightarrow> GpioLed" where
  "GpioLed_StartFadeTask s =
     (if \<not> gl_ledc_initialized s then s
      else ledc_fade_start
             (ledc_set_fade_with_time LEDC_DUTY LEDC_FADE_TIME
                ((ledc_fade_stop (gl_timer_stop s))\<lparr>gl_fade_up := True\<rparr>)))"


text \<open>
  The brightness macros of \<^verbatim>\<open>gpio_led.cc\<close>, in percent: \<^verbatim>\<open>DEFAULT_BRIGHTNESS\<close> 50,
  \<^verbatim>\<open>HIGH_BRIGHTNESS\<close> 100, \<^verbatim>\<open>LOW_BRIGHTNESS\<close> 10, \<^verbatim>\<open>IDLE_BRIGHTNESS\<close> 5,
  \<^verbatim>\<open>SPEAKING_BRIGHTNESS\<close> 75, \<^verbatim>\<open>UPGRADING_BRIGHTNESS\<close> 25, \<^verbatim>\<open>ACTIVATING_BRIGHTNESS\<close> 35.
  In the idle case the call of \<^verbatim>\<open>TurnOff\<close> is commented out in the source, and in the
  listening case the call of \<^verbatim>\<open>TurnOn\<close> is.
\<close>

definition GpioLed_OnStateChanged :: "Application \<Rightarrow> GpioLed \<Rightarrow> GpioLed" where
  "GpioLed_OnStateChanged app s =
     (case GetDeviceState app of
        kDeviceStateStarting \<Rightarrow> GpioLed_StartContinuousBlink 100 (GpioLed_SetBrightness 50 s)
      | kDeviceStateWifiConfiguring \<Rightarrow> GpioLed_StartContinuousBlink 500 (GpioLed_SetBrightness 50 s)
      | kDeviceStateIdle \<Rightarrow> GpioLed_TurnOn (GpioLed_SetBrightness 5 s)
      | kDeviceStateConnecting \<Rightarrow> GpioLed_TurnOn (GpioLed_SetBrightness 50 s)
      | kDeviceStateListening \<Rightarrow>
          GpioLed_StartFadeTask
            (if IsVoiceDetected app then GpioLed_SetBrightness 100 s else GpioLed_SetBrightness 10 s)
      | kDeviceStateAudioTesting \<Rightarrow>
          GpioLed_StartFadeTask
            (if IsVoiceDetected app then GpioLed_SetBrightness 100 s else GpioLed_SetBrightness 10 s)
      | kDeviceStateSpeaking \<Rightarrow> GpioLed_TurnOn (GpioLed_SetBrightness 75 s)
      | kDeviceStateUpgrading \<Rightarrow> GpioLed_StartContinuousBlink 100 (GpioLed_SetBrightness 25 s)
      | kDeviceStateActivating \<Rightarrow> GpioLed_StartContinuousBlink 500 (GpioLed_SetBrightness 35 s)
      | _ \<Rightarrow> s)"

section \<open>Notions used in the statements\<close>

text \<open>Every channel of every pixel of a buffer is zero.\<close>

definition all_off :: "StripColor list \<Rightarrow> bool" where
  "all_off cs = (\<forall>c \<in> set cs. c = black)"

text \<open>The channel values of a buffer, its largest one, and a strict bound on all of them.\<close>

definition channels :: "StripColor list \<Rightarrow> nat list" where
  "channels cs = concat (map (\<lambda>c. [unat (red c), unat (green c), unat (blue c)]) cs)"

definition max_channel_value :: "StripColor list \<Rightarrow> nat" where
  "max_channel_value cs = foldr max (channels cs) 0"

definition below :: "nat \<Rightarrow> StripColor list \<Rightarrow> bool" where
  "below b cs = (\<forall>c \<in> set cs. unat (red c) < b \<and> unat (green c) < b \<and> unat (blue c) < b)"

text \<open>One tick delivered to a strip whose installed step is the fade-out lambda.\<close>

definition fade :: "CircularStrip \<Rightarrow> CircularStrip" where
  "fade s = unlock (FadeOut_step (lock_guard s))"

text \<open>
  A ring of six pixels in the connecting state: \<^verbatim>\<open>OnStateChanged\<close> has set every pixel
  to \<open>{low_brightness_, low_brightness_, default_brightness_}\<close>, that is \<open>{4, 4, 32}\<close>.
\<close>

definition ring6_connecting :: CircularStrip where
  "ring6_connecting =
     CircularStrip_SetAllColor \<lparr>red = 4, green = 4, blue = 32\<rparr> (CircularStrip_ctor 6 program_start)"

text \<open>The application in the idle state, and in the listening state with a given voice flag.\<close>

definition idle_app :: Application where
  "idle_app = \<lparr>GetDeviceState = kDeviceStateIdle, IsVoiceDetected = False\<rparr>"



text \<open>The colour \<^verbatim>\<open>SetColor\<close> last stored in a \<^verbatim>\<open>SingleLed\<close>.\<close>

definition sl_color :: "SingleLed \<Rightarrow> StripColor" where
  "sl_color s = \<lparr>red = sl_r s, green = sl_g s, blue = sl_b s\<rparr>"

text \<open>
  A \<^verbatim>\<open>SingleLed\<close> whose colour is the blue \<open>{0, 0, DEFAULT_BRIGHTNESS}\<close> of the
  starting and connecting states.
\<close>

definition blue_pixel :: SingleLed where
  "blue_pixel = SingleLed_SetColor 0 0 4 SingleLed_ctor"

text \<open>
  The buffer a scroll step paints on \<open>n\<close> pixels: \<open>high\<close> on the \<open>len\<close> pixels from
  \<open>start\<close> on, counted round the ring, and \<open>low\<close> elsewhere.
\<close>

definition scroll_window :: "nat \<Rightarrow> nat \<Rightarrow> nat \<Rightarrow> StripColor \<Rightarrow> StripColor \<Rightarrow> StripColor list" where
  "scroll_window n start len low high =
     map (\<lambda>i. if \<exists>j \<in> {0..<len}. (start + j) mod n = i then high else low) [0..<n]"

text \<open>
  The colours the ring uses at default brightness: the blue-white
  \<open>{low_brightness_, low_brightness_, default_brightness_}\<close> of the starting, wifi and
  connecting states and the green of the upgrading state.
\<close>

definition starting_blue :: StripColor where
  "starting_blue = \<lparr>red = 4, green = 4, blue = 32\<rparr>"


text \<open>
  The value the static \<^verbatim>\<open>color\<close> of the breathing lambda has when the lambda is entered
  next: \<open>low\<close> if it is not initialised yet.
\<close>

definition current_color :: "StripColor \<Rightarrow> CircularStrip \<Rightarrow> StripColor" where
  "current_color low s = (case breathe_color s of None \<Rightarrow> low | Some c \<Rightarrow> c)"

text \<open>The upper bound of the breathing example, \<open>{10, 10, 10}\<close>.\<close>

definition ten :: StripColor where
  "ten = \<lparr>red = 10, green = 10, blue = 10\<rparr>"

text \<open>
  Lock discipline on a sequence of calls: every store into \<^verbatim>\<open>colors_\<close> happens while
  the mutex is held. The flag says whether it is held at the start.
\<close>

fun writes_guarded :: "bool \<Rightarrow> event list \<Rightarrow> bool" where
  "writes_guarded held [] = True"
| "writes_guarded held (Acquire # es) = writes_guarded True es"
| "writes_guarded held (Release # es) = writes_guarded False es"
| "writes_guarded held (BufWrite i # es) = (held \<and> writes_guarded held es)"
| "writes_guarded held (e # es) = writes_guarded held es"

text \<open>What an installation leaves behind: the buffer, the installed step and the timer.\<close>

definition installation :: "CircularStrip \<Rightarrow> StripColor list \<times> step option \<times> bool \<times> int" where
  "installation s = (colors s, strip_callback s, timer_active s, timer_period_us s)"

text \<open>
  The four statics of the three lambdas, and the phase of the three animations: blink
  on or off, breathing up or down, and where the scrolling window starts.
\<close>

definition animation_phase :: "CircularStrip \<Rightarrow> bool \<times> bool \<times> StripColor option \<times> nat" where
  "animation_phase s = (blink_on s, breathe_increase s, breathe_color s, scroll_offset s)"


text \<open>What an operation reads besides its arguments.\<close>

definition setting :: "CircularStrip \<Rightarrow> bool \<times> nat \<times> 8 word \<times> 8 word" where
  "setting s = (led_strip s, max_leds s, default_brightness s, low_brightness s)"

text \<open>
  The application in the wifi-configuring state, a fresh ring of six pixels after
  \<^verbatim>\<open>OnStateChanged\<close> in that state, and the same ring one tick later.
\<close>

definition wifi_app :: Application where
  "wifi_app = \<lparr>GetDeviceState = kDeviceStateWifiConfiguring, IsVoiceDetected = False\<rparr>"

definition ring6_wifi :: CircularStrip where
  "ring6_wifi = CircularStrip_OnStateChanged wifi_app (CircularStrip_ctor 6 program_start)"


text \<open>
  A sequence of calls that neither takes nor releases the mutex, and two states of which
  the second is reached from the first by such a sequence.
\<close>

definition lock_free :: "event list \<Rightarrow> bool" where
  "lock_free es = (Acquire \<notin> set es \<and> Release \<notin> set es)"

definition calls_lock_free :: "CircularStrip \<Rightarrow> CircularStrip \<Rightarrow> bool" where
  "calls_lock_free s s' =
     (take (length (trace s)) (trace s') = trace s \<and>
      lock_free (drop (length (trace s)) (trace s')))"

section \<open>Basic facts\<close>

lemma max_leds_ctor: "max_leds (CircularStrip_ctor n ps) = unat n"
  by (simp add: max_leds_def CircularStrip_ctor_def program_start_def)

lemma foldl_keeps:
  assumes "\<And>s i. g (f s i) = g s"
  shows "g (foldl f s xs) = g s"
  by (induction xs arbitrary: s) (simp_all add: assms)

lemma foldl_upt_update:
  assumes step: "\<And>s i. g (f s i) = (g s)[i := v i (g s ! i)]"
  shows "n \<le> length (g s) \<Longrightarrow>
         g (foldl f s [0..<n]) = map (\<lambda>i. v i (g s ! i)) [0..<n] @ drop n (g s)"
proof (induction n)
  case 0
  then show ?case by simp
next
  case (Suc n)
  let ?A = "map (\<lambda>i. v i (g s ! i)) [0..<n]"
  have len: "length ?A = n" by simp
  have n: "n < length (g s)" using Suc.prems by simp
  have ih: "g (foldl f s [0..<n]) = ?A @ drop n (g s)" using Suc by simp
  have nth: "(?A @ drop n (g s)) ! n = g s ! n"
    using n by (simp add: nth_append)
  have "g (foldl f s [0..<Suc n]) = (?A @ drop n (g s))[n := v n (g s ! n)]"
    by (simp add: step ih nth del: upt_Suc add: upt_Suc_append)
  also have "\<dots> = ?A @ (drop n (g s))[0 := v n (g s ! n)]"
    by (simp add: list_update_append)
  also have "drop n (g s) = g s ! n # drop (Suc n) (g s)"
    using n by (simp add: Cons_nth_drop_Suc)
  finally show ?case by simp
qed

lemma foldl_upt_update_all:
  assumes step: "\<And>s i. g (f s i) = (g s)[i := v i (g s ! i)]"
  shows "g (foldl f s [0..<length (g s)]) = map (\<lambda>i. v i (g s ! i)) [0..<length (g s)]"
  using foldl_upt_update [where g = g and f = f and v = v and n = "length (g s)" and s = s, OF step]
  by simp

lemma colors_fill:
  "colors (foldl (\<lambda>s i. set_color i c s) s [0..<max_leds s]) = replicate (max_leds s) c"
proof -
  have "colors (foldl (\<lambda>s i. set_color i c s) s [0..<length (colors s)])
        = map (\<lambda>i. (\<lambda>i x. c) i (colors s ! i)) [0..<length (colors s)]"
    by (rule foldl_upt_update_all) (simp add: set_color_def)
  then show ?thesis by (simp add: max_leds_def map_replicate_const)
qed

lemma black_iff: "(c :: StripColor) = black \<longleftrightarrow> red c = 0 \<and> green c = 0 \<and> blue c = 0"
  by (cases c) (simp add: black_def)

lemma halve_black [simp]: "halve black = black"
  by (simp add: halve_def black_def)

lemma FadeOut_body_colors:
  "colors (snd (FadeOut_body acc i)) = (colors (snd acc))[i := halve (colors (snd acc) ! i)]"
  by (simp add: FadeOut_body_def Let_def set_color_def led_strip_set_pixel_def)

lemma FadeOut_body_flag:
  "fst (FadeOut_body acc i) = (fst acc \<and> halve (colors (snd acc) ! i) = black)"
  by (auto simp add: FadeOut_body_def Let_def black_iff)

lemma FadeOut_loop_colors:
  "n \<le> length (colors s) \<Longrightarrow>
   colors (snd (foldl FadeOut_body (b, s) [0..<n])) = map halve (take n (colors s)) @ drop n (colors s)"
proof -
  assume n: "n \<le> length (colors s)"
  have "(colors \<circ> snd) (foldl FadeOut_body (b, s) [0..<n])
        = map (\<lambda>i. (\<lambda>i. halve) i ((colors \<circ> snd) (b, s) ! i)) [0..<n] @ drop n ((colors \<circ> snd) (b, s))"
    by (rule foldl_upt_update) (simp_all add: FadeOut_body_colors n)
  moreover have "map (\<lambda>i. halve (colors s ! i)) [0..<n] = map halve (take n (colors s))"
    using n by (simp add: list_eq_iff_nth_eq)
  ultimately show ?thesis by simp
qed

lemma FadeOut_loop_flag:
  "n \<le> length (colors s) \<Longrightarrow>
   fst (foldl FadeOut_body (b, s) [0..<n]) = (b \<and> (\<forall>c \<in> set (take n (colors s)). halve c = black))"
proof (induction n)
  case 0
  then show ?case by simp
next
  case (Suc n)
  then have n: "n < length (colors s)" by simp
  have c: "colors (snd (foldl FadeOut_body (b, s) [0..<n])) ! n = colors s ! n"
    using n by (simp add: FadeOut_loop_colors nth_append)
  show ?case
    using Suc.IH n by (auto simp add: FadeOut_body_flag c take_Suc_conv_app_nth)
qed

lemma FadeOut_loop_keeps:
  assumes "\<And>s i c. g (led_strip_set_pixel i c (set_color i c s)) = g s"
  shows "g (snd (foldl FadeOut_body acc xs)) = g (snd acc)"
proof -
  have "(g \<circ> snd) (foldl FadeOut_body acc xs) = (g \<circ> snd) acc"
    by (rule foldl_keeps) (simp add: FadeOut_body_def Let_def assms)
  then show ?thesis by simp
qed

lemma FadeOut_step_colors: "colors (FadeOut_step s) = map halve (colors s)"
  by (simp add: FadeOut_step_def Let_def max_leds_def FadeOut_loop_colors
      esp_timer_stop_def led_strip_clear_def led_strip_refresh_def)

lemma FadeOut_step_callback: "strip_callback (FadeOut_step s) = strip_callback s"
  by (simp add: FadeOut_step_def Let_def esp_timer_stop_def led_strip_clear_def led_strip_refresh_def
      FadeOut_loop_keeps [where g = strip_callback] set_color_def led_strip_set_pixel_def)

lemma FadeOut_step_timer:
  "timer_active (FadeOut_step s) = (timer_active s \<and> \<not> all_off (map halve (colors s)))"
  by (simp add: FadeOut_step_def Let_def esp_timer_stop_def led_strip_clear_def led_strip_refresh_def
      FadeOut_loop_keeps [where g = timer_active] set_color_def led_strip_set_pixel_def
      FadeOut_loop_flag max_leds_def all_off_def)

lemma FadeOut_loop_pixels: "length (pixel_buf (snd (foldl FadeOut_body acc xs))) = length (pixel_buf (snd acc))"
  by (rule FadeOut_loop_keeps [where g = "\<lambda>s. length (pixel_buf s)"])
     (simp add: set_color_def led_strip_set_pixel_def)

lemma FadeOut_step_cleared:
  "all_off (map halve (colors s)) \<Longrightarrow>
   pixel_buf (FadeOut_step s) = replicate (length (pixel_buf s)) black \<and>
   shown (FadeOut_step s) = replicate (length (pixel_buf s)) black"
  by (simp add: FadeOut_step_def Let_def esp_timer_stop_def led_strip_clear_def
      FadeOut_loop_flag max_leds_def all_off_def FadeOut_loop_pixels)

lemma FadeOut_step_pixels_length: "length (pixel_buf (FadeOut_step s)) = length (pixel_buf s)"
  by (simp add: FadeOut_step_def Let_def esp_timer_stop_def led_strip_clear_def led_strip_refresh_def
      FadeOut_loop_pixels)

lemma foldr_max_less: "foldr max xs (0::nat) < b \<longleftrightarrow> 0 < b \<and> (\<forall>x \<in> set xs. x < b)"
  by (induction xs) auto

lemma max_channel_value_less: "max_channel_value cs < b \<longleftrightarrow> 0 < b \<and> below b cs"
  by (auto simp add: max_channel_value_def foldr_max_less channels_def below_def)

lemma all_off_replicate: "all_off cs \<longleftrightarrow> cs = replicate (length cs) black"
  unfolding all_off_def by (metis in_set_replicate replicate_eqI)

lemma below_1: "below (Suc 0) cs \<longleftrightarrow> all_off cs"
  by (simp add: below_def all_off_def black_iff unat_eq_0)

lemma unat_half: "unat ((x :: 8 word) div 2) = unat x div 2"
  by (simp add: unat_div)

lemma below_halve_iff: "below b (map halve cs) \<longleftrightarrow> below (2 * b) cs"
  by (auto simp add: below_def halve_def unat_half)

lemma ticks_stopped: "\<not> timer_active s \<Longrightarrow> ticks k s = Inr s"
  by (induction k) (simp_all add: timer_tick_def)

lemma FadeOut_tick:
  "timer_active s \<Longrightarrow> strip_callback s = Some FadeOutStep \<Longrightarrow>
   timer_tick s = Inr (unlock (FadeOut_step (lock_guard s)))"
  by (simp add: timer_tick_def timer_callback_def Let_def run_step_def lock_guard_def)

lemma FadeOut_callback:
  "strip_callback s = Some FadeOutStep \<Longrightarrow>
   timer_callback s = Inr (unlock (FadeOut_step (lock_guard s)))"
  by (simp add: timer_callback_def Let_def run_step_def lock_guard_def)

lemma fade_colors: "colors (fade s) = map halve (colors s)"
  by (simp add: fade_def unlock_def FadeOut_step_colors lock_guard_def)

lemma fade_callback: "strip_callback (fade s) = strip_callback s"
  by (simp add: fade_def unlock_def FadeOut_step_callback lock_guard_def)

lemma fade_timer: "timer_active (fade s) = (timer_active s \<and> \<not> all_off (map halve (colors s)))"
  by (simp add: fade_def unlock_def FadeOut_step_timer lock_guard_def)

lemma fade_pixels_length: "length (pixel_buf (fade s)) = length (pixel_buf s)"
  by (simp add: fade_def unlock_def FadeOut_step_pixels_length lock_guard_def)

lemma fade_cleared:
  "all_off (map halve (colors s)) \<Longrightarrow>
   pixel_buf (fade s) = replicate (length (pixel_buf s)) black \<and>
   shown (fade s) = replicate (length (pixel_buf s)) black"
  using FadeOut_step_cleared [of "lock_guard s"]
  by (simp add: fade_def unlock_def lock_guard_def)

lemma FadeOut_run:
  "timer_active s \<Longrightarrow> strip_callback s = Some FadeOutStep \<Longrightarrow> below (2 ^ Suc k) (colors s) \<Longrightarrow>
   \<exists>s'. ticks (Suc k) s = Inr s' \<and> colors s' = replicate (length (colors s)) black \<and>
        \<not> timer_active s' \<and> strip_callback s' = Some FadeOutStep \<and>
        pixel_buf s' = replicate (length (pixel_buf s)) black \<and>
        shown s' = replicate (length (pixel_buf s)) black"
proof (induction k arbitrary: s)
  case 0
  have tick: "timer_tick s = Inr (fade s)"
    using 0 by (simp add: FadeOut_tick fade_def)
  have "below (Suc 0) (map halve (colors s))"
    using 0 by (simp add: below_halve_iff)
  then have off: "all_off (map halve (colors s))" by (simp add: below_1)
  then have "colors (fade s) = replicate (length (colors s)) black"
    using all_off_replicate [of "map halve (colors s)"] by (simp add: fade_colors)
  then show ?case
    using tick off 0 fade_cleared [OF off] by (simp add: fade_timer fade_callback)
next
  case (Suc k)
  have tick: "timer_tick s = Inr (fade s)"
    using Suc.prems by (simp add: FadeOut_tick fade_def)
  have below: "below (2 ^ Suc k) (colors (fade s))"
    using Suc.prems by (simp add: fade_colors below_halve_iff)
  show ?case
  proof (cases "all_off (map halve (colors s))")
    case True
    then have stopped: "\<not> timer_active (fade s)" by (simp add: fade_timer)
    have "colors (fade s) = replicate (length (colors s)) black"
      using True all_off_replicate [of "map halve (colors s)"] by (simp add: fade_colors)
    then show ?thesis
      using tick ticks_stopped [OF stopped, of "Suc k"] stopped fade_cleared [OF True] Suc.prems
      by (simp add: fade_callback)
  next
    case False
    then have active: "timer_active (fade s)" using Suc.prems by (simp add: fade_timer)
    have cb: "strip_callback (fade s) = Some FadeOutStep"
      using Suc.prems by (simp add: fade_callback)
    from Suc.IH [OF active cb below] obtain s' where
      "ticks (Suc k) (fade s) = Inr s'" "colors s' = replicate (length (colors (fade s))) black"
      "\<not> timer_active s'" "strip_callback s' = Some FadeOutStep"
      "pixel_buf s' = replicate (length (pixel_buf (fade s))) black"
      "shown s' = replicate (length (pixel_buf (fade s))) black"
      by blast
    then show ?thesis
      using tick by (simp add: fade_colors fade_pixels_length)
  qed
qed

lemma StartStripTask_fields:
  "led_strip s \<Longrightarrow>
   colors (CircularStrip_StartStripTask iv cb s) = colors s \<and>
   pixel_buf (CircularStrip_StartStripTask iv cb s) = pixel_buf s \<and>
   strip_callback (CircularStrip_StartStripTask iv cb s) = Some cb \<and>
   timer_active (CircularStrip_StartStripTask iv cb s)"
  by (simp add: CircularStrip_StartStripTask_def unlock_def esp_timer_start_periodic_def
      esp_timer_stop_def lock_guard_def)

lemma FadeOut_progress:
  "timer_active s \<Longrightarrow> strip_callback s = Some FadeOutStep \<Longrightarrow> \<not> below (2 ^ k) (colors s) \<Longrightarrow>
   \<exists>s'. ticks k s = Inr s' \<and> timer_active s' \<and> colors s' = map (halve ^^ k) (colors s)"
proof (induction k arbitrary: s)
  case 0
  then show ?case by simp
next
  case (Suc k)
  have tick: "timer_tick s = Inr (fade s)"
    using Suc.prems by (simp add: FadeOut_tick fade_def)
  have nb: "\<not> below (2 ^ k) (colors (fade s))"
    using Suc.prems by (simp add: fade_colors below_halve_iff)
  have "\<not> below (Suc 0) (map halve (colors s))"
  proof
    assume "below (Suc 0) (map halve (colors s))"
    then have "below (2 ^ k) (map halve (colors s))"
      by (auto simp add: below_def intro: less_le_trans)
    then show False using nb by (simp add: fade_colors)
  qed
  then have "\<not> all_off (map halve (colors s))" by (simp add: below_1)
  then have active: "timer_active (fade s)" using Suc.prems by (simp add: fade_timer)
  have cb: "strip_callback (fade s) = Some FadeOutStep"
    using Suc.prems by (simp add: fade_callback)
  from Suc.IH [OF active cb nb] show ?case
    using tick by (simp add: fade_colors funpow_swap1 comp_def)
qed

lemma SetAllColor_colors:
  "colors (CircularStrip_SetAllColor color s) = replicate (max_leds s) color"
proof -
  let ?s1 = "esp_timer_stop (lock_guard s)"
  have "colors (foldl (\<lambda>s i. led_strip_set_pixel i color (set_color i color s)) ?s1 [0..<length (colors ?s1)])
        = map (\<lambda>i. (\<lambda>i x. color) i (colors ?s1 ! i)) [0..<length (colors ?s1)]"
    by (rule foldl_upt_update_all) (simp add: set_color_def led_strip_set_pixel_def)
  then show ?thesis
    by (simp add: CircularStrip_SetAllColor_def max_leds_def map_replicate_const unlock_def
        led_strip_refresh_def esp_timer_stop_def lock_guard_def)
qed

lemma SetAllColor_led_strip: "led_strip (CircularStrip_SetAllColor color s) = led_strip s"
proof -
  have "led_strip (foldl (\<lambda>s i. led_strip_set_pixel i color (set_color i color s))
          (esp_timer_stop (lock_guard s)) [0..<max_leds s]) = led_strip (esp_timer_stop (lock_guard s))"
    by (rule foldl_keeps) (simp add: set_color_def led_strip_set_pixel_def)
  then show ?thesis
    by (simp add: CircularStrip_SetAllColor_def unlock_def led_strip_refresh_def
        esp_timer_stop_def lock_guard_def)
qed

lemma SetAllColor_pixels_length:
  "length (pixel_buf (CircularStrip_SetAllColor color s)) = length (pixel_buf s)"
proof -
  have "length (pixel_buf (foldl (\<lambda>s i. led_strip_set_pixel i color (set_color i color s))
          (esp_timer_stop (lock_guard s)) [0..<max_leds s]))
        = length (pixel_buf (esp_timer_stop (lock_guard s)))"
    by (rule foldl_keeps [where g = "\<lambda>s. length (pixel_buf s)"])
       (simp add: set_color_def led_strip_set_pixel_def)
  then show ?thesis
    by (simp add: CircularStrip_SetAllColor_def unlock_def led_strip_refresh_def
        esp_timer_stop_def lock_guard_def)
qed

lemma ring6_connecting_colors:
  "colors ring6_connecting = replicate 6 \<lparr>red = 4, green = 4, blue = 32\<rparr>"
  by (simp add: ring6_connecting_def SetAllColor_colors max_leds_ctor)

lemma ring6_connecting_led_strip: "led_strip ring6_connecting"
  by (simp add: ring6_connecting_def SetAllColor_led_strip CircularStrip_ctor_def program_start_def)

lemma ring6_connecting_pixels: "length (pixel_buf ring6_connecting) = 6"
  by (simp add: ring6_connecting_def SetAllColor_pixels_length CircularStrip_ctor_def program_start_def)

lemma replicate6: "replicate 6 x = [x, x, x, x, x, x]"
  by (simp add: eval_nat_numeral)

lemma ring6_max: "max_channel_value (colors ring6_connecting) = 32"
  by (simp add: ring6_connecting_colors max_channel_value_def channels_def replicate6)

lemma halve5: "(halve ^^ 5) \<lparr>red = 4, green = 4, blue = 32\<rparr> = \<lparr>red = 0, green = 0, blue = 1\<rparr>"
  by code_simp

lemma floorlog_max_channel_value: "floorlog 2 (max_channel_value cs) \<le> 8"
proof -
  have "unat x < 2 ^ 8" for x :: "8 word"
    using unsigned_less [of x] by simp
  then have "below (2 ^ 8) cs"
    unfolding below_def by blast
  then have "max_channel_value cs < 2 ^ 8"
    by (simp add: max_channel_value_less)
  then show ?thesis
    by (simp add: floorlog_le_iff)
qed

lemma all_off_map_halve: "all_off cs \<Longrightarrow> map halve cs = cs"
  by (induction cs) (simp_all add: all_off_def)

lemma all_off_halve: "all_off cs \<Longrightarrow> map (halve ^^ j) cs = cs"
proof (induction j)
  case 0
  then show ?case by simp
next
  case (Suc j)
  have "map (halve ^^ Suc j) cs = map halve (map (halve ^^ j) cs)" by simp
  also have "\<dots> = map halve cs" using Suc by simp
  also have "\<dots> = cs" using Suc.prems by (rule all_off_map_halve)
  finally show ?case .
qed

lemma FadeOut_halving:
  "strip_callback s = Some FadeOutStep \<Longrightarrow> timer_active s \<or> all_off (colors s) \<Longrightarrow>
   \<exists>s'. ticks j s = Inr s' \<and> colors s' = map (halve ^^ j) (colors s)"
proof (induction j arbitrary: s)
  case 0
  then show ?case by simp
next
  case (Suc j)
  show ?case
  proof (cases "timer_active s")
    case True
    have tick: "timer_tick s = Inr (fade s)"
      using True Suc.prems(1) by (simp add: FadeOut_tick fade_def)
    have cb: "strip_callback (fade s) = Some FadeOutStep"
      using Suc.prems(1) by (simp add: fade_callback)
    have inv: "timer_active (fade s) \<or> all_off (colors (fade s))"
      using True by (simp add: fade_timer fade_colors)
    from Suc.IH [OF cb inv] show ?thesis
      using tick by (simp add: fade_colors funpow_swap1 comp_def)
  next
    case False
    then have "all_off (colors s)" using Suc.prems(2) by simp
    then have "map (halve ^^ Suc j) (colors s) = colors s" by (rule all_off_halve)
    moreover have "ticks (Suc j) s = Inr s" by (rule ticks_stopped [OF False])
    ultimately show ?thesis by metis
  qed
qed

lemma halve_unat:
  "unat (red (halve c)) = unat (red c) div 2"
  "unat (green (halve c)) = unat (green c) div 2"
  "unat (blue (halve c)) = unat (blue c) div 2"
  by (simp_all add: halve_def unat_half)

lemma div_pow_Suc: "(a :: nat) div 2 ^ j div 2 = a div 2 ^ Suc j"
  by (metis div_mult2_eq mult.commute power_Suc)

lemma halve_funpow:
  "unat (red ((halve ^^ j) c)) = unat (red c) div 2 ^ j \<and>
   unat (green ((halve ^^ j) c)) = unat (green c) div 2 ^ j \<and>
   unat (blue ((halve ^^ j) c)) = unat (blue c) div 2 ^ j"
proof (induction j)
  case 0
  then show ?case by simp
next
  case (Suc j)
  have "(halve ^^ Suc j) c = halve ((halve ^^ j) c)" by simp
  then show ?case using Suc by (simp only: halve_unat div_pow_Suc)
qed

lemma halve1: "halve \<lparr>red = 4, green = 4, blue = 32\<rparr> = \<lparr>red = 2, green = 2, blue = 16\<rparr>"
  by (simp add: halve_def)
subsection \<open>The blink counter of \<^verbatim>\<open>SingleLed\<close>\<close>

lemma pos_signed_unat:
  assumes "0 <s (x :: 32 word)"
  shows "0 < unat x \<and> unat x < 2 ^ 31"
proof -
  have s: "0 < sint x" using assms by (simp add: word_sless_alt)
  have l: "sint x < 2 ^ 31" using sint_lt [of x] by simp
  have "take_bit 32 (sint x) = sint x"
    using s l by (simp add: take_bit_int_eq_self)
  then have e: "sint x = uint x" using uint_sint [of x] by simp
  have "0 < uint x" and "uint x < 2 ^ 31" using s l e by simp_all
  then show ?thesis by (transfer, simp)+
qed

lemma unat_twice:
  assumes "unat (x :: 32 word) < 2 ^ 31"
  shows "unat (x * 2) = 2 * unat x"
proof -
  have "unat x * unat (2 :: 32 word) < 2 ^ LENGTH(32)" using assms by simp
  then have "unat (x * 2) = unat x * unat (2 :: 32 word)"
    by (simp only: unat_mult_lem)
  then show ?thesis by simp
qed

lemma unat_pred: "(c :: 32 word) \<noteq> 0 \<Longrightarrow> unat (c - 1) = unat c - 1"
  by (simp add: unat_minus_one)

lemma and_one_odd: "(c :: 32 word) AND 1 \<noteq> 0 \<longleftrightarrow> odd c"
  by (simp add: and_one_eq odd_iff_mod_2_eq_one)

lemma OnBlinkTimer_fields:
  "sl_blink_counter (SingleLed_OnBlinkTimer s) = sl_blink_counter s - 1 \<and>
   sl_shown (SingleLed_OnBlinkTimer s) = (if odd (sl_blink_counter s - 1) then sl_color s else black) \<and>
   sl_timer_active (SingleLed_OnBlinkTimer s) = (sl_timer_active s \<and> sl_blink_counter s - 1 \<noteq> 0) \<and>
   sl_color (SingleLed_OnBlinkTimer s) = sl_color s"
  by (auto simp add: SingleLed_OnBlinkTimer_def Let_def and_one_odd sl_show_def sl_clear_def sl_color_def)

lemma word_pred_zero:
  assumes "Suc 0 \<le> unat (c :: 32 word)"
  shows "unat (c - 1) = unat c - 1" and "(c - 1 = 0) = (unat c = Suc 0)"
proof -
  have nz: "c \<noteq> 0" using assms by auto
  show u: "unat (c - 1) = unat c - 1" by (rule unat_pred [OF nz])
  have "(c - 1 = 0) = (unat (c - 1) = 0)" by (rule unat_eq_0 [symmetric])
  then show "(c - 1 = 0) = (unat c = Suc 0)" using u assms by arith
qed

lemma SingleLed_run:
  "sl_timer_active s \<Longrightarrow> Suc k \<le> unat (sl_blink_counter s) \<Longrightarrow>
   sl_blink_counter (SingleLed_ticks (Suc k) s) = sl_blink_counter s - of_nat (Suc k) \<and>
   sl_shown (SingleLed_ticks (Suc k) s) =
     (if odd (sl_blink_counter s - of_nat (Suc k)) then sl_color s else black) \<and>
   sl_timer_active (SingleLed_ticks (Suc k) s) = (Suc k < unat (sl_blink_counter s)) \<and>
   sl_color (SingleLed_ticks (Suc k) s) = sl_color s"
proof (induction k arbitrary: s)
  case 0
  let ?c = "sl_blink_counter s"
  have "(?c - 1 \<noteq> 0) = (Suc 0 < unat ?c)"
    using word_pred_zero(2) [of ?c] 0(2) by auto
  then show ?case
    using 0 OnBlinkTimer_fields [of s] by (simp add: SingleLed_tick_def)
next
  case (Suc k)
  let ?c = "sl_blink_counter s"
  let ?t = "SingleLed_OnBlinkTimer s"
  have one: "Suc 0 \<le> unat ?c" using Suc.prems by simp
  have u: "unat (?c - 1) = unat ?c - 1" by (rule word_pred_zero(1) [OF one])
  have tick: "SingleLed_tick s = ?t" using Suc.prems by (simp add: SingleLed_tick_def)
  have "?c - 1 \<noteq> 0" using Suc.prems word_pred_zero(2) [OF one] by simp
  then have active: "sl_timer_active ?t" using Suc.prems OnBlinkTimer_fields [of s] by simp
  have f: "sl_blink_counter ?t = ?c - 1" "sl_color ?t = sl_color s"
    using OnBlinkTimer_fields [of s] by simp_all
  have le: "Suc k \<le> unat (sl_blink_counter ?t)"
    using Suc.prems u by (simp add: f)
  have c: "sl_blink_counter ?t - of_nat (Suc k) = ?c - of_nat (Suc (Suc k))"
    by (simp add: f)
  have lt: "(Suc k < unat (sl_blink_counter ?t)) = (Suc (Suc k) < unat ?c)"
    using u by (auto simp add: f)
  have "SingleLed_ticks (Suc (Suc k)) s = SingleLed_ticks (Suc k) ?t"
    using tick by simp
  then show ?case
    using Suc.IH [OF active le] unfolding c lt f(2) by (simp only:)
qed

subsection \<open>Scrolling, breathing, blinking and the order of calls\<close>

lemma set_color_fields:
  "colors (set_color i c s) = (colors s)[i := c]"
  "pixel_buf (set_color i c s) = pixel_buf s"
  "shown (set_color i c s) = shown s"
  "timer_active (set_color i c s) = timer_active s"
  "strip_callback (set_color i c s) = strip_callback s"
  "led_strip (set_color i c s) = led_strip s"
  "blink_on (set_color i c s) = blink_on s"
  "breathe_increase (set_color i c s) = breathe_increase s"
  "breathe_color (set_color i c s) = breathe_color s"
  "scroll_offset (set_color i c s) = scroll_offset s"
  by (simp_all add: set_color_def)

lemma set_pixel_fields:
  "pixel_buf (led_strip_set_pixel i c s) = (pixel_buf s)[i := c]"
  "length (pixel_buf (led_strip_set_pixel i c s)) = length (pixel_buf s)"
  "colors (led_strip_set_pixel i c s) = colors s"
  "shown (led_strip_set_pixel i c s) = shown s"
  "timer_active (led_strip_set_pixel i c s) = timer_active s"
  "strip_callback (led_strip_set_pixel i c s) = strip_callback s"
  "led_strip (led_strip_set_pixel i c s) = led_strip s"
  "blink_on (led_strip_set_pixel i c s) = blink_on s"
  "breathe_increase (led_strip_set_pixel i c s) = breathe_increase s"
  "breathe_color (led_strip_set_pixel i c s) = breathe_color s"
  "scroll_offset (led_strip_set_pixel i c s) = scroll_offset s"
  by (simp_all add: led_strip_set_pixel_def list_update_beyond)

lemma window_loop:
  "length (colors (foldl (\<lambda>s j. set_color (f j) c s) s [0..<m])) = length (colors s) \<and>
   (\<forall>i < length (colors s).
      colors (foldl (\<lambda>s j. set_color (f j) c s) s [0..<m]) ! i
        = (if \<exists>j \<in> {0..<m}. f j = i then c else colors s ! i))"
proof (induction m)
  case 0
  then show ?case by simp
next
  case (Suc m)
  let ?p = "foldl (\<lambda>s j. set_color (f j) c s) s [0..<m]"
  have step: "foldl (\<lambda>s j. set_color (f j) c s) s [0..<Suc m] = set_color (f m) c ?p"
    by simp
  have len: "length (colors ?p) = length (colors s)" using Suc by simp
  show ?case
  proof (intro conjI allI impI)
    show "length (colors (foldl (\<lambda>s j. set_color (f j) c s) s [0..<Suc m])) = length (colors s)"
      unfolding step using len by (simp only: set_color_fields length_list_update)
  next
    fix i assume i: "i < length (colors s)"
    have ih: "colors ?p ! i = (if \<exists>j \<in> {0..<m}. f j = i then c else colors s ! i)"
      using Suc i by simp
    have ex: "(\<exists>j \<in> {0..<Suc m}. f j = i) = ((\<exists>j \<in> {0..<m}. f j = i) \<or> f m = i)"
      by (auto simp add: less_Suc_eq)
    show "colors (foldl (\<lambda>s j. set_color (f j) c s) s [0..<Suc m]) ! i
            = (if \<exists>j \<in> {0..<Suc m}. f j = i then c else colors s ! i)"
    proof (cases "f m = i")
      case True
      then show ?thesis
        unfolding step ex using i len by (simp add: set_color_fields)
    next
      case False
      then show ?thesis
        unfolding step ex using ih by (simp add: set_color_fields)
    qed
  qed
qed

lemma show_colors_colors: "colors (show_colors s) = colors s"
  unfolding show_colors_def
  by (rule foldl_keeps) (rule set_pixel_fields)

lemma show_loop_pixels:
  "n \<le> length (colors s) \<Longrightarrow> length (pixel_buf s) = length (colors s) \<Longrightarrow>
   pixel_buf (foldl (\<lambda>s i. led_strip_set_pixel i (colors s ! i) s) s [0..<n])
     = take n (colors s) @ drop n (pixel_buf s)"
proof (induction n)
  case 0
  then show ?case by simp
next
  case (Suc n)
  let ?p = "foldl (\<lambda>s i. led_strip_set_pixel i (colors s ! i) s) s [0..<n]"
  have c: "colors ?p = colors s"
    by (rule foldl_keeps) (rule set_pixel_fields)
  have ih: "pixel_buf ?p = take n (colors s) @ drop n (pixel_buf s)"
    using Suc by simp
  have n: "n < length (colors s)" "n < length (pixel_buf s)" using Suc.prems by simp_all
  have "pixel_buf (led_strip_set_pixel n (colors ?p ! n) ?p) = (pixel_buf ?p)[n := colors s ! n]"
    by (simp only: set_pixel_fields c)
  also have "\<dots> = take n (colors s) @ (drop n (pixel_buf s))[0 := colors s ! n]"
    using n by (simp add: ih list_update_append)
  also have "drop n (pixel_buf s) = pixel_buf s ! n # drop (Suc n) (pixel_buf s)"
    using n by (simp add: Cons_nth_drop_Suc)
  finally show ?case
    using n by (simp add: take_Suc_conv_app_nth)
qed

lemma show_colors_pixels:
  "length (pixel_buf s) = length (colors s) \<Longrightarrow> pixel_buf (show_colors s) = colors s"
  using show_loop_pixels [of "length (colors s)" s]
  by (simp add: show_colors_def max_leds_def)

lemma show_colors_keeps:
  assumes "\<And>s i c. g (led_strip_set_pixel i c s) = g s"
  shows "g (show_colors s) = g s"
  unfolding show_colors_def by (rule foldl_keeps) (rule assms)

lemma fill_keeps:
  assumes "\<And>s i c. g (set_color i c s) = g s"
  shows "g (foldl (\<lambda>s i. set_color i c s) s xs) = g s"
  by (rule foldl_keeps) (rule assms)

lemma window_keeps:
  assumes "\<And>s i c. g (set_color i c s) = g s"
  shows "g (foldl (\<lambda>s j. set_color (f j) c s) s xs) = g s"
  by (rule foldl_keeps) (rule assms)

lemma Scroll_step_result:
  assumes "0 < max_leds s"
  shows "\<exists>s'. Scroll_step low high len s = Inr s' \<and>
           colors s' = scroll_window (max_leds s) (scroll_offset s) (nat len) low high \<and>
           scroll_offset s' = (scroll_offset s + 1) mod max_leds s \<and>
           timer_active s' = timer_active s \<and>
           strip_callback s' = strip_callback s \<and>
           length (pixel_buf s') = length (pixel_buf s) \<and>
           (length (pixel_buf s) = max_leds s \<longrightarrow> pixel_buf s' = colors s' \<and> shown s' = colors s')"
proof -
  let ?n = "max_leds s"
  let ?s1 = "foldl (\<lambda>s i. set_color i low s) s [0..<?n]"
  let ?s2 = "foldl (\<lambda>t j. set_color ((scroll_offset s + j) mod ?n) high t) ?s1 [0..<nat len]"
  let ?s3 = "led_strip_refresh (show_colors ?s2)"
  have c1: "colors ?s1 = replicate ?n low" by (rule colors_fill)
  have w: "length (colors ?s2) = ?n"
    "\<And>i. i < ?n \<Longrightarrow> colors ?s2 ! i
        = (if \<exists>j \<in> {0..<nat len}. (scroll_offset s + j) mod ?n = i then high else low)"
    using window_loop [of "\<lambda>j. (scroll_offset s + j) mod ?n" high ?s1 "nat len"]
    by (simp_all add: c1)
  have c2: "colors ?s2 = scroll_window ?n (scroll_offset s) (nat len) low high"
    by (simp add: list_eq_iff_nth_eq w scroll_window_def)
  have k1: "g ?s2 = g s" if "\<And>s i c. g (set_color i c s) = g s" for g :: "CircularStrip \<Rightarrow> 'b"
    using window_keeps [of g "\<lambda>j. (scroll_offset s + j) mod ?n" high ?s1 "[0..<nat len]", OF that]
      fill_keeps [of g low s "[0..<?n]", OF that] by (simp only:)
  have t: "timer_active ?s2 = timer_active s" "strip_callback ?s2 = strip_callback s"
    "pixel_buf ?s2 = pixel_buf s"
    by (rule k1, rule set_color_fields)+
  have c3: "colors ?s3 = colors ?s2"
    by (simp add: led_strip_refresh_def show_colors_colors)
  have t3: "timer_active ?s3 = timer_active s" "strip_callback ?s3 = strip_callback s"
    using show_colors_keeps [of timer_active ?s2] show_colors_keeps [of strip_callback ?s2]
    by (simp_all add: led_strip_refresh_def set_pixel_fields t)
  have l3: "length (pixel_buf ?s3) = length (pixel_buf s)"
    using show_colors_keeps [of "\<lambda>s. length (pixel_buf s)" ?s2]
    by (simp add: led_strip_refresh_def set_pixel_fields t)
  have p3: "pixel_buf ?s3 = colors ?s2 \<and> shown ?s3 = colors ?s2" if "length (pixel_buf s) = ?n"
    using show_colors_pixels [of ?s2] that by (simp add: led_strip_refresh_def t w)
  have "Scroll_step low high len s = Inr (?s3\<lparr>scroll_offset := (scroll_offset s + 1) mod ?n\<rparr>)"
    using assms by (simp add: Scroll_step_def Let_def)
  then show ?thesis
    using c2 c3 t3 l3 p3 by simp
qed

lemma scroll_window_mod:
  "scroll_window n (start mod n) len low high = scroll_window n start len low high"
  by (simp add: scroll_window_def mod_add_left_eq)

lemma length_scroll_window: "length (scroll_window n start len low high) = n"
  by (simp add: scroll_window_def)

lemma Scroll_install:
  assumes "led_strip s"
  shows "colors (CircularStrip_Scroll low high len interval_ms s) = replicate (max_leds s) low \<and>
         strip_callback (CircularStrip_Scroll low high len interval_ms s) = Some (ScrollStep low high len) \<and>
         timer_active (CircularStrip_Scroll low high len interval_ms s) \<and>
         scroll_offset (CircularStrip_Scroll low high len interval_ms s) = scroll_offset s \<and>
         pixel_buf (CircularStrip_Scroll low high len interval_ms s) = pixel_buf s"
proof -
  let ?s1 = "foldl (\<lambda>s i. set_color i low s) s [0..<max_leds s]"
  have k: "g ?s1 = g s" if "\<And>s i c. g (set_color i c s) = g s" for g :: "CircularStrip \<Rightarrow> 'b"
    using fill_keeps [of g low s "[0..<max_leds s]", OF that] .
  have f: "led_strip ?s1" "scroll_offset ?s1 = scroll_offset s" "pixel_buf ?s1 = pixel_buf s"
    using assms k [of led_strip] k [of scroll_offset] k [of pixel_buf]
    by (simp_all add: set_color_fields)
  have c: "colors ?s1 = replicate (max_leds s) low" by (rule colors_fill)
  show ?thesis
    using StartStripTask_fields [OF f(1), of interval_ms "ScrollStep low high len"] f c
    by (simp add: CircularStrip_Scroll_def CircularStrip_StartStripTask_def unlock_def
        esp_timer_start_periodic_def esp_timer_stop_def lock_guard_def)
qed

lemma Scroll_tick:
  assumes "timer_active s" and "strip_callback s = Some (ScrollStep low high len)"
    and "0 < max_leds s"
  shows "\<exists>s'. timer_tick s = Inr s' \<and>
           colors s' = scroll_window (max_leds s) (scroll_offset s) (nat len) low high \<and>
           scroll_offset s' = (scroll_offset s + 1) mod max_leds s \<and>
           timer_active s' \<and> strip_callback s' = Some (ScrollStep low high len) \<and>
           length (pixel_buf s') = length (pixel_buf s) \<and>
           (length (pixel_buf s) = max_leds s \<longrightarrow> shown s' = colors s')"
proof -
  have n: "0 < max_leds (lock_guard s)" using assms(3) by (simp add: max_leds_def lock_guard_def)
  from Scroll_step_result [OF n, of low high len] obtain s2 where s2:
    "Scroll_step low high len (lock_guard s) = Inr s2"
    "colors s2 = scroll_window (max_leds s) (scroll_offset s) (nat len) low high"
    "scroll_offset s2 = (scroll_offset s + 1) mod max_leds s"
    "timer_active s2 = timer_active s" "strip_callback s2 = strip_callback s"
    "length (pixel_buf s2) = length (pixel_buf s)"
    "length (pixel_buf s) = max_leds s \<longrightarrow> shown s2 = colors s2"
    by (auto simp add: max_leds_def lock_guard_def)
  have "timer_tick s = Inr (unlock s2)"
    using assms s2(1) by (simp add: timer_tick_def timer_callback_def Let_def run_step_def lock_guard_def)
  then show ?thesis
    using s2 assms by (simp add: unlock_def)
qed

lemma Scroll_ticks:
  "timer_active s \<Longrightarrow> strip_callback s = Some (ScrollStep low high len) \<Longrightarrow> 0 < max_leds s \<Longrightarrow>
   \<exists>s'. ticks (Suc k) s = Inr s' \<and>
        colors s' = scroll_window (max_leds s) (scroll_offset s + k) (nat len) low high \<and>
        scroll_offset s' = (scroll_offset s + Suc k) mod max_leds s \<and>
        timer_active s' \<and> strip_callback s' = Some (ScrollStep low high len) \<and>
        (length (pixel_buf s) = max_leds s \<longrightarrow> shown s' = colors s')"
proof (induction k arbitrary: s)
  case 0
  from Scroll_tick [OF 0] show ?case by auto
next
  case (Suc k)
  from Scroll_tick [OF Suc.prems] obtain t where t:
    "timer_tick s = Inr t"
    "colors t = scroll_window (max_leds s) (scroll_offset s) (nat len) low high"
    "scroll_offset t = (scroll_offset s + 1) mod max_leds s"
    "timer_active t" "strip_callback t = Some (ScrollStep low high len)"
    "length (pixel_buf t) = length (pixel_buf s)"
    by blast
  have n: "max_leds t = max_leds s"
    by (simp add: max_leds_def t(2) length_scroll_window)
  have pos: "0 < max_leds t" using Suc.prems n by simp
  from Suc.IH [OF t(4) t(5) pos] obtain s' where s':
    "ticks (Suc k) t = Inr s'"
    "colors s' = scroll_window (max_leds t) (scroll_offset t + k) (nat len) low high"
    "scroll_offset s' = (scroll_offset t + Suc k) mod max_leds t"
    "timer_active s'" "strip_callback s' = Some (ScrollStep low high len)"
    "length (pixel_buf t) = max_leds t \<longrightarrow> shown s' = colors s'"
    by blast
  have w: "scroll_window (max_leds s) ((scroll_offset s + 1) mod max_leds s + k) (nat len) low high
           = scroll_window (max_leds s) (scroll_offset s + Suc k) (nat len) low high"
    using scroll_window_mod [of "max_leds s" "(scroll_offset s + 1) mod max_leds s + k" "nat len" low high]
      scroll_window_mod [of "max_leds s" "scroll_offset s + Suc k" "nat len" low high]
    by (simp add: mod_add_left_eq)
  have "((scroll_offset s + 1) mod max_leds s + Suc k) mod max_leds s
           = (scroll_offset s + 1 + Suc k) mod max_leds s"
    by (rule mod_add_left_eq)
  then have o: "((scroll_offset s + 1) mod max_leds s + Suc k) mod max_leds s
           = (scroll_offset s + Suc (Suc k)) mod max_leds s"
    by (simp only: add_Suc_right add_Suc add_0_right One_nat_def)
  show ?case
    using t(1) s' unfolding n t(3) t(6) w o by simp
qed

lemma ctor6_fields:
  "led_strip (CircularStrip_ctor 6 program_start)" "max_leds (CircularStrip_ctor 6 program_start) = 6"
  "scroll_offset (CircularStrip_ctor 6 program_start) = 0" "length (pixel_buf (CircularStrip_ctor 6 program_start)) = 6"
  by (simp_all add: CircularStrip_ctor_def program_start_def max_leds_def)

lemma Breathe_step_fields:
  "breathe_increase (Breathe_step low high s)
     = fst (Breathe_next low high (breathe_increase s, current_color low s))"
  "breathe_color (Breathe_step low high s)
     = Some (snd (Breathe_next low high (breathe_increase s, current_color low s)))"
  "timer_active (Breathe_step low high s) = timer_active s"
  "strip_callback (Breathe_step low high s) = strip_callback s"
  "colors (Breathe_step low high s) = colors s"
  "length (pixel_buf (Breathe_step low high s)) = length (pixel_buf s)"
proof -
  let ?st = "Breathe_next low high (breathe_increase s, current_color low s)"
  let ?s1 = "s\<lparr>breathe_increase := fst ?st, breathe_color := Some (snd ?st)\<rparr>"
  let ?s2 = "foldl (\<lambda>s i. led_strip_set_pixel i (snd ?st) s) ?s1 [0..<max_leds ?s1]"
  have e: "Breathe_step low high s = led_strip_refresh ?s2"
    by (simp add: Breathe_step_def Let_def current_color_def)
  have k: "g ?s2 = g ?s1" if "\<And>s i c. g (led_strip_set_pixel i c s) = g s"
    for g :: "CircularStrip \<Rightarrow> 'b"
    by (rule foldl_keeps) (rule that)
  show "breathe_increase (Breathe_step low high s) = fst ?st"
    unfolding e using k [of breathe_increase] by (simp add: led_strip_refresh_def set_pixel_fields)
  show "breathe_color (Breathe_step low high s) = Some (snd ?st)"
    unfolding e using k [of breathe_color] by (simp add: led_strip_refresh_def set_pixel_fields)
  show "timer_active (Breathe_step low high s) = timer_active s"
    unfolding e using k [of timer_active] by (simp add: led_strip_refresh_def set_pixel_fields)
  show "strip_callback (Breathe_step low high s) = strip_callback s"
    unfolding e using k [of strip_callback] by (simp add: led_strip_refresh_def set_pixel_fields)
  show "colors (Breathe_step low high s) = colors s"
    unfolding e using k [of colors] by (simp add: led_strip_refresh_def set_pixel_fields)
  show "length (pixel_buf (Breathe_step low high s)) = length (pixel_buf s)"
    unfolding e using k [of "\<lambda>s. length (pixel_buf s)"]
    by (simp add: led_strip_refresh_def set_pixel_fields)
qed

lemma Breathe_step_shown:
  assumes "length (pixel_buf s) = max_leds s"
  shows "shown (Breathe_step low high s)
         = replicate (max_leds s) (snd (Breathe_next low high (breathe_increase s, current_color low s)))"
proof -
  let ?st = "Breathe_next low high (breathe_increase s, current_color low s)"
  let ?s1 = "s\<lparr>breathe_increase := fst ?st, breathe_color := Some (snd ?st)\<rparr>"
  let ?s2 = "foldl (\<lambda>s i. led_strip_set_pixel i (snd ?st) s) ?s1 [0..<length (pixel_buf ?s1)]"
  have e: "Breathe_step low high s = led_strip_refresh ?s2"
    using assms by (simp add: Breathe_step_def Let_def current_color_def max_leds_def)
  have "pixel_buf ?s2 = map (\<lambda>i. (\<lambda>i x. snd ?st) i (pixel_buf ?s1 ! i)) [0..<length (pixel_buf ?s1)]"
    by (rule foldl_upt_update_all) (rule set_pixel_fields)
  then show ?thesis
    unfolding e using assms by (simp add: led_strip_refresh_def map_replicate_const)
qed

lemma Breathe_tick:
  assumes "timer_active s" and "strip_callback s = Some (BreatheStep low high)"
  shows "timer_tick s = Inr (unlock (Breathe_step low high (lock_guard s)))"
  using assms by (simp add: timer_tick_def timer_callback_def Let_def run_step_def lock_guard_def)

lemma Breathe_ticks:
  "timer_active s \<Longrightarrow> strip_callback s = Some (BreatheStep low high) \<Longrightarrow>
   \<exists>s'. ticks k s = Inr s' \<and> timer_active s' \<and> strip_callback s' = Some (BreatheStep low high) \<and>
        (breathe_increase s', current_color low s')
          = (Breathe_next low high ^^ k) (breathe_increase s, current_color low s) \<and>
        max_leds s' = max_leds s \<and> length (pixel_buf s') = length (pixel_buf s) \<and>
        (0 < k \<longrightarrow> breathe_color s' = Some (current_color low s')) \<and>
        (0 < k \<longrightarrow> length (pixel_buf s) = max_leds s \<longrightarrow>
           shown s' = replicate (max_leds s) (current_color low s'))"
proof (induction k arbitrary: s)
  case 0
  then show ?case by simp
next
  case (Suc k)
  let ?t = "unlock (Breathe_step low high (lock_guard s))"
  have tick: "timer_tick s = Inr ?t" by (rule Breathe_tick [OF Suc.prems])
  have lg: "breathe_increase (lock_guard s) = breathe_increase s"
    "current_color low (lock_guard s) = current_color low s"
    "timer_active (lock_guard s) = timer_active s"
    "strip_callback (lock_guard s) = strip_callback s"
    "max_leds (lock_guard s) = max_leds s"
    "pixel_buf (lock_guard s) = pixel_buf s"
    by (simp_all add: lock_guard_def current_color_def max_leds_def)
  have f: "timer_active ?t" "strip_callback ?t = Some (BreatheStep low high)"
    "(breathe_increase ?t, current_color low ?t)
       = Breathe_next low high (breathe_increase s, current_color low s)"
    "breathe_color ?t = Some (current_color low ?t)"
    "max_leds ?t = max_leds s" "length (pixel_buf ?t) = length (pixel_buf s)"
    using Suc.prems
    by (simp_all add: unlock_def Breathe_step_fields lg current_color_def lock_guard_def max_leds_def)
  have cc: "current_color low ?t
            = snd (Breathe_next low high (breathe_increase s, current_color low s))"
    using f(3) by (metis snd_conv)
  have su: "shown ?t = shown (Breathe_step low high (lock_guard s))"
    by (simp add: unlock_def)
  have sh: "shown ?t = replicate (max_leds s) (current_color low ?t)"
    if "length (pixel_buf s) = max_leds s"
    unfolding cc su using Breathe_step_shown [of "lock_guard s" low high] that
    by (simp only: lg)
  from Suc.IH [OF f(1) f(2)] obtain s' where s':
    "ticks k ?t = Inr s'" "timer_active s'" "strip_callback s' = Some (BreatheStep low high)"
    "(breathe_increase s', current_color low s')
       = (Breathe_next low high ^^ k) (breathe_increase ?t, current_color low ?t)"
    "max_leds s' = max_leds ?t" "length (pixel_buf s') = length (pixel_buf ?t)"
    "0 < k \<longrightarrow> breathe_color s' = Some (current_color low s')"
    "0 < k \<longrightarrow> length (pixel_buf ?t) = max_leds ?t \<longrightarrow>
       shown s' = replicate (max_leds ?t) (current_color low s')"
    by blast
  have c: "breathe_color s' = Some (current_color low s')"
  proof (cases k)
    case 0
    then show ?thesis using s'(1) f(4) by simp
  next
    case (Suc j)
    then show ?thesis using s'(7) by simp
  qed
  have d: "shown s' = replicate (max_leds s) (current_color low s')"
    if "length (pixel_buf s) = max_leds s"
  proof (cases k)
    case 0
    then show ?thesis using s'(1) sh [OF that] by simp
  next
    case (Suc j)
    then show ?thesis using s'(8) that f(5,6) by simp
  qed
  have r: "(breathe_increase s', current_color low s')
           = (Breathe_next low high ^^ k)
               (Breathe_next low high (breathe_increase s, current_color low s))"
    using s'(4) by (simp only: f(3))
  show ?case
    using tick s'(1,2,3,5,6) c d f(5,6) r by (simp add: funpow_swap1)
qed

lemma funpow10: "(f ^^ 10) x = f (f (f (f (f (f (f (f (f (f x)))))))))"
  by (simp add: eval_nat_numeral)

lemma funpow20: "(f ^^ 20) x = (f ^^ 10) ((f ^^ 10) x)"
proof -
  have "(20::nat) = 10 + 10" by simp
  then show ?thesis by (simp only: funpow_add o_apply)
qed

lemma Breathe_next_up: "(Breathe_next black ten ^^ 10) (True, black) = (False, ten)"
  by (simp add: funpow10 Breathe_next_def black_def ten_def)

lemma Breathe_next_down: "(Breathe_next black ten ^^ 10) (False, ten) = (True, black)"
  by (simp add: funpow10 Breathe_next_def black_def ten_def)

lemma Breathe_next_flip:
  "fst (Breathe_next low high (increase, c))
     = (if increase then snd (Breathe_next low high (increase, c)) \<noteq> high
        else snd (Breathe_next low high (increase, c)) = low)"
  by (cases high; cases low) (auto simp add: Breathe_next_def Let_def)

lemma Breathe_install:
  assumes "led_strip s"
  shows "timer_active (CircularStrip_Breathe low high interval_ms s)"
    "strip_callback (CircularStrip_Breathe low high interval_ms s) = Some (BreatheStep low high)"
    "breathe_increase (CircularStrip_Breathe low high interval_ms s) = breathe_increase s"
    "breathe_color (CircularStrip_Breathe low high interval_ms s) = breathe_color s"
    "max_leds (CircularStrip_Breathe low high interval_ms s) = max_leds s"
    "pixel_buf (CircularStrip_Breathe low high interval_ms s) = pixel_buf s"
  using assms
  by (simp_all add: CircularStrip_Breathe_def CircularStrip_StartStripTask_def unlock_def
      esp_timer_start_periodic_def esp_timer_stop_def lock_guard_def max_leds_def)

lemma fill_trace:
  "trace (foldl (\<lambda>s i. set_color i c s) s [0..<n]) = trace s @ map BufWrite [0..<n]"
  by (induction n) (simp_all add: set_color_def)

lemma StartStripTask_trace:
  "led_strip s \<Longrightarrow>
   trace (CircularStrip_StartStripTask interval_ms cb s)
     = trace s @ [Acquire, TimerStop, TimerStart (interval_ms * 1000), Release]"
  by (simp add: CircularStrip_StartStripTask_def unlock_def esp_timer_start_periodic_def
      esp_timer_stop_def lock_guard_def)

lemma fill_led_strip: "led_strip (foldl (\<lambda>s i. set_color i c s) s xs) = led_strip s"
  by (rule foldl_keeps) (rule set_color_fields)

lemma Blink_trace:
  "led_strip s \<Longrightarrow>
   trace (CircularStrip_Blink color interval_ms s)
     = trace s @ map BufWrite [0..<max_leds s]
         @ [Acquire, TimerStop, TimerStart (interval_ms * 1000), Release]"
  by (simp add: CircularStrip_Blink_def StartStripTask_trace fill_led_strip fill_trace)

lemma Scroll_trace:
  "led_strip s \<Longrightarrow>
   trace (CircularStrip_Scroll low high len interval_ms s)
     = trace s @ map BufWrite [0..<max_leds s]
         @ [Acquire, TimerStop, TimerStart (interval_ms * 1000), Release]"
  by (simp add: CircularStrip_Scroll_def StartStripTask_trace fill_led_strip fill_trace)

lemma SetAllColor_loop_trace:
  "trace (foldl (\<lambda>s i. led_strip_set_pixel i c (set_color i c s)) s [0..<n])
     = trace s @ concat (map (\<lambda>i. [BufWrite i, SetPixel i]) [0..<n])"
  by (induction n) (simp_all add: set_color_def led_strip_set_pixel_def)

lemma SetAllColor_trace:
  "trace (CircularStrip_SetAllColor color s)
     = trace s @ [Acquire, TimerStop] @ concat (map (\<lambda>i. [BufWrite i, SetPixel i]) [0..<max_leds s])
         @ [Refresh, Release]"
  by (simp add: CircularStrip_SetAllColor_def SetAllColor_loop_trace unlock_def
      led_strip_refresh_def esp_timer_stop_def lock_guard_def)

lemma guarded_held_pairs:
  "writes_guarded True (concat (map (\<lambda>i. [BufWrite i, SetPixel i]) xs) @ es)
     = writes_guarded True es"
  by (induction xs) simp_all

lemma unguarded_writes:
  "xs \<noteq> [] \<Longrightarrow> \<not> writes_guarded False (map BufWrite xs @ es)"
  by (cases xs) simp_all

lemma ctor_trace: "trace (CircularStrip_ctor n ps) = [Clear]"
  by (simp add: CircularStrip_ctor_def program_start_def)

lemma StartStripTask_all:
  "colors (CircularStrip_StartStripTask iv cb s) = colors s"
  "pixel_buf (CircularStrip_StartStripTask iv cb s) = pixel_buf s"
  "shown (CircularStrip_StartStripTask iv cb s) = shown s"
  "led_strip (CircularStrip_StartStripTask iv cb s) = led_strip s"
  "default_brightness (CircularStrip_StartStripTask iv cb s) = default_brightness s"
  "low_brightness (CircularStrip_StartStripTask iv cb s) = low_brightness s"
  "blink_on (CircularStrip_StartStripTask iv cb s) = blink_on s"
  "breathe_increase (CircularStrip_StartStripTask iv cb s) = breathe_increase s"
  "breathe_color (CircularStrip_StartStripTask iv cb s) = breathe_color s"
  "scroll_offset (CircularStrip_StartStripTask iv cb s) = scroll_offset s"
  "strip_callback (CircularStrip_StartStripTask iv cb s) = (if led_strip s then Some cb else strip_callback s)"
  "timer_active (CircularStrip_StartStripTask iv cb s) = (if led_strip s then True else timer_active s)"
  "timer_period_us (CircularStrip_StartStripTask iv cb s)
     = (if led_strip s then iv * 1000 else timer_period_us s)"
  by (simp_all add: CircularStrip_StartStripTask_def unlock_def esp_timer_start_periodic_def
      esp_timer_stop_def lock_guard_def)

lemma fill_all:
  "colors (foldl (\<lambda>s i. set_color i c s) s [0..<max_leds s]) = replicate (max_leds s) c"
  "pixel_buf (foldl (\<lambda>s i. set_color i c s) s xs) = pixel_buf s"
  "shown (foldl (\<lambda>s i. set_color i c s) s xs) = shown s"
  "led_strip (foldl (\<lambda>s i. set_color i c s) s xs) = led_strip s"
  "default_brightness (foldl (\<lambda>s i. set_color i c s) s xs) = default_brightness s"
  "low_brightness (foldl (\<lambda>s i. set_color i c s) s xs) = low_brightness s"
  "blink_on (foldl (\<lambda>s i. set_color i c s) s xs) = blink_on s"
  "breathe_increase (foldl (\<lambda>s i. set_color i c s) s xs) = breathe_increase s"
  "breathe_color (foldl (\<lambda>s i. set_color i c s) s xs) = breathe_color s"
  "scroll_offset (foldl (\<lambda>s i. set_color i c s) s xs) = scroll_offset s"
  "strip_callback (foldl (\<lambda>s i. set_color i c s) s xs) = strip_callback s"
  "timer_active (foldl (\<lambda>s i. set_color i c s) s xs) = timer_active s"
  "timer_period_us (foldl (\<lambda>s i. set_color i c s) s xs) = timer_period_us s"
  by (rule colors_fill, (rule foldl_keeps, simp add: set_color_def)+)

lemma Blink_facts:
  "animation_phase (CircularStrip_Blink c iv s) = animation_phase s"
  "setting (CircularStrip_Blink c iv s) = setting s"
  "installation (CircularStrip_Blink c iv s)
     = (replicate (max_leds s) c,
        if led_strip s then Some BlinkStep else strip_callback s,
        if led_strip s then True else timer_active s,
        if led_strip s then iv * 1000 else timer_period_us s)"
proof -
  let ?s1 = "foldl (\<lambda>s i. set_color i c s) s [0..<max_leds s]"
  have e: "CircularStrip_Blink c iv s = CircularStrip_StartStripTask iv BlinkStep ?s1"
    by (simp add: CircularStrip_Blink_def)
  have m: "max_leds (CircularStrip_StartStripTask iv BlinkStep ?s1) = max_leds s"
    by (simp add: max_leds_def [of "CircularStrip_StartStripTask iv BlinkStep ?s1"]
        StartStripTask_all fill_all)
  show "animation_phase (CircularStrip_Blink c iv s) = animation_phase s"
    unfolding e by (simp add: animation_phase_def StartStripTask_all fill_all)
  show "setting (CircularStrip_Blink c iv s) = setting s"
    unfolding e by (simp add: setting_def StartStripTask_all fill_all m)
  show "installation (CircularStrip_Blink c iv s)
     = (replicate (max_leds s) c,
        if led_strip s then Some BlinkStep else strip_callback s,
        if led_strip s then True else timer_active s,
        if led_strip s then iv * 1000 else timer_period_us s)"
    unfolding e by (simp add: installation_def StartStripTask_all fill_all)
qed







lemmas Blink_fields = Blink_facts [unfolded installation_def setting_def prod.inject]





lemma Blink_tick:
  assumes "timer_active s" and "strip_callback s = Some BlinkStep"
  shows "timer_tick s = Inr (unlock (Blink_step (lock_guard s)))"
  using assms by (simp add: timer_tick_def timer_callback_def Let_def run_step_def lock_guard_def)


lemma Blink_pixel_buf: "pixel_buf (CircularStrip_Blink c iv s) = pixel_buf s"
  by (simp add: CircularStrip_Blink_def StartStripTask_all fill_all)

lemma Blink_blink_on: "blink_on (CircularStrip_Blink c iv s) = blink_on s"
  using Blink_facts(1) [of c iv s] by (simp add: animation_phase_def)

lemma wifi_is_Blink:
  "default_brightness s = 32 \<Longrightarrow> low_brightness s = 4 \<Longrightarrow>
   CircularStrip_OnStateChanged wifi_app s = CircularStrip_Blink starting_blue 500 s"
  by (simp add: CircularStrip_OnStateChanged_def wifi_app_def starting_blue_def Let_def)

lemma ctor6_more:
  "default_brightness (CircularStrip_ctor 6 program_start) = 32" "low_brightness (CircularStrip_ctor 6 program_start) = 4"
  "blink_on (CircularStrip_ctor 6 program_start)" "length (colors (CircularStrip_ctor 6 program_start)) = 6"
  "animation_phase (CircularStrip_ctor 6 program_start) = (True, True, None, 0)"
  by (simp_all add: CircularStrip_ctor_def program_start_def animation_phase_def)

lemma ring6_wifi_fields:
  "ring6_wifi = CircularStrip_Blink starting_blue 500 (CircularStrip_ctor 6 program_start)"
  "timer_active ring6_wifi" "strip_callback ring6_wifi = Some BlinkStep"
  "colors ring6_wifi = replicate 6 starting_blue" "blink_on ring6_wifi"
  "length (pixel_buf ring6_wifi) = length (colors ring6_wifi)" "led_strip ring6_wifi"
proof -
  show e: "ring6_wifi = CircularStrip_Blink starting_blue 500 (CircularStrip_ctor 6 program_start)"
    by (simp add: ring6_wifi_def wifi_is_Blink ctor6_more)
  show "timer_active ring6_wifi" "strip_callback ring6_wifi = Some BlinkStep"
    "colors ring6_wifi = replicate 6 starting_blue" "blink_on ring6_wifi"
    "length (pixel_buf ring6_wifi) = length (colors ring6_wifi)" "led_strip ring6_wifi"
    unfolding e
    by (simp_all add: Blink_fields Blink_pixel_buf Blink_blink_on ctor6_fields ctor6_more)
qed


subsection \<open>Calls made under the lock, and two further facts\<close>

lemma clf_iff: "calls_lock_free s s' \<longleftrightarrow> (\<exists>es. trace s' = trace s @ es \<and> lock_free es)"
proof
  assume "calls_lock_free s s'"
  then have "trace s' = trace s @ drop (length (trace s)) (trace s')"
    and "lock_free (drop (length (trace s)) (trace s'))"
    unfolding calls_lock_free_def by (metis append_take_drop_id, simp)
  then show "\<exists>es. trace s' = trace s @ es \<and> lock_free es" by blast
next
  assume "\<exists>es. trace s' = trace s @ es \<and> lock_free es"
  then show "calls_lock_free s s'" by (auto simp add: calls_lock_free_def)
qed

lemma clf_refl: "calls_lock_free s s"
  by (simp add: clf_iff lock_free_def)

lemma clf_trans: "calls_lock_free s t \<Longrightarrow> calls_lock_free t u \<Longrightarrow> calls_lock_free s u"
  by (auto simp add: clf_iff lock_free_def)

lemma clf_same_trace: "trace t = trace s \<Longrightarrow> calls_lock_free s t"
  by (simp add: clf_iff lock_free_def)

lemma clf_prims:
  "calls_lock_free s (set_color i c s)"
  "calls_lock_free s (led_strip_set_pixel i c s)"
  "calls_lock_free s (led_strip_refresh s)"
  "calls_lock_free s (led_strip_clear s)"
  "calls_lock_free s (esp_timer_stop s)"
  by (simp_all add: clf_iff lock_free_def set_color_def led_strip_set_pixel_def
      led_strip_refresh_def led_strip_clear_def esp_timer_stop_def)

lemma clf_foldl:
  assumes "\<And>s i. calls_lock_free s (f s i)"
  shows "calls_lock_free s (foldl f s xs)"
proof (induction xs arbitrary: s)
  case Nil
  show ?case by (simp add: clf_refl)
next
  case (Cons x xs)
  show ?case using clf_trans [OF assms [of s x] Cons [of "f s x"]] by simp
qed

lemma clf_show_colors: "calls_lock_free s (show_colors s)"
  unfolding show_colors_def by (rule clf_foldl) (rule clf_prims)

lemma clf_Blink_step: "calls_lock_free s (Blink_step s)"
proof -
  have "calls_lock_free s (led_strip_refresh (show_colors s))"
    by (rule clf_trans [OF clf_show_colors clf_prims(3)])
  then show ?thesis
    using clf_prims(4) [of s]
    by (simp add: Blink_step_def Let_def clf_iff)
qed

lemma clf_FadeOut_loop: "calls_lock_free (snd acc) (snd (foldl FadeOut_body acc xs))"
proof (induction xs arbitrary: acc)
  case Nil
  show ?case by (simp add: clf_refl)
next
  case (Cons x xs)
  have "calls_lock_free (snd acc) (snd (FadeOut_body acc x))"
    by (simp add: FadeOut_body_def Let_def clf_trans [OF clf_prims(1) clf_prims(2)])
  from clf_trans [OF this Cons [of "FadeOut_body acc x"]] show ?case by simp
qed

lemma clf_FadeOut_step: "calls_lock_free s (FadeOut_step s)"
proof -
  let ?r = "foldl FadeOut_body (True, s) [0..<max_leds s]"
  have l: "calls_lock_free s (snd ?r)"
    using clf_FadeOut_loop [of "(True, s)"] by simp
  have "calls_lock_free s (esp_timer_stop (led_strip_clear (snd ?r)))"
    by (rule clf_trans [OF l clf_trans [OF clf_prims(4) clf_prims(5)]])
  moreover have "calls_lock_free s (led_strip_refresh (snd ?r))"
    by (rule clf_trans [OF l clf_prims(3)])
  ultimately show ?thesis by (simp add: FadeOut_step_def Let_def)
qed

lemma clf_Breathe_step: "calls_lock_free s (Breathe_step low high s)"
proof -
  let ?st = "Breathe_next low high
               (breathe_increase s, case breathe_color s of None \<Rightarrow> low | Some c \<Rightarrow> c)"
  let ?s1 = "s\<lparr>breathe_increase := fst ?st, breathe_color := Some (snd ?st)\<rparr>"
  let ?s2 = "foldl (\<lambda>s i. led_strip_set_pixel i (snd ?st) s) ?s1 [0..<max_leds ?s1]"
  have a: "calls_lock_free s ?s1" by (rule clf_same_trace) simp
  have b: "calls_lock_free ?s1 ?s2" by (rule clf_foldl) (rule clf_prims)
  have "calls_lock_free s (led_strip_refresh ?s2)"
    by (rule clf_trans [OF a clf_trans [OF b clf_prims(3)]])
  then show ?thesis by (simp add: Breathe_step_def Let_def)
qed

lemma clf_Scroll_step:
  assumes "Scroll_step low high len s = Inr s'"
  shows "calls_lock_free s s'"
proof -
  let ?n = "max_leds s"
  let ?s1 = "foldl (\<lambda>s i. set_color i low s) s [0..<?n]"
  let ?s2 = "foldl (\<lambda>t j. set_color ((scroll_offset s + j) mod ?n) high t) ?s1 [0..<nat len]"
  let ?s3 = "led_strip_refresh (show_colors ?s2)"
  have e: "s' = ?s3\<lparr>scroll_offset := (scroll_offset s + 1) mod ?n\<rparr>"
    using assms by (simp add: Scroll_step_def Let_def split: if_splits)
  have a: "calls_lock_free s ?s1" by (rule clf_foldl) (rule clf_prims)
  have b: "calls_lock_free ?s1 ?s2" by (rule clf_foldl) (rule clf_prims)
  have c: "calls_lock_free ?s2 ?s3" by (rule clf_trans [OF clf_show_colors clf_prims(3)])
  have d: "calls_lock_free ?s3 s'" unfolding e by (rule clf_same_trace) simp
  show ?thesis by (rule clf_trans [OF a clf_trans [OF b clf_trans [OF c d]]])
qed

lemma clf_run_step: "run_step cb s = Inr s' \<Longrightarrow> calls_lock_free s s'"
  by (cases cb)
     (auto simp add: run_step_def clf_Blink_step clf_FadeOut_step clf_Breathe_step
        intro: clf_Scroll_step)

lemma guarded_lock_free:
  "lock_free es \<Longrightarrow> writes_guarded True (es @ rest) = writes_guarded True rest"
proof (induction es)
  case Nil
  show ?case by simp
next
  case (Cons e es)
  then show ?case by (cases e) (simp_all add: lock_free_def)
qed

lemma timer_callback_guarded:
  assumes "timer_callback s = Inr s'"
  shows "\<exists>es. trace s' = trace s @ Acquire # es @ [Release] \<and> lock_free es \<and>
              writes_guarded held (Acquire # es @ [Release])"
proof (cases "strip_callback s")
  case None
  then have "s' = unlock (lock_guard s)"
    using assms by (simp add: timer_callback_def Let_def lock_guard_def)
  then have "trace s' = trace s @ Acquire # [] @ [Release]"
    by (simp add: unlock_def lock_guard_def)
  then show ?thesis by (intro exI [of _ "[]"]) (simp add: lock_free_def)
next
  case (Some cb)
  then obtain s2 where s2: "run_step cb (lock_guard s) = Inr s2" "s' = unlock s2"
    using assms by (auto simp add: timer_callback_def Let_def lock_guard_def split: sum.splits)
  from clf_run_step [OF s2(1)] obtain es where es:
    "trace s2 = trace (lock_guard s) @ es" "lock_free es"
    by (auto simp add: clf_iff)
  have "trace s' = trace s @ Acquire # es @ [Release]"
    by (simp add: s2(2) unlock_def es(1) lock_guard_def)
  moreover have "writes_guarded held (Acquire # es @ [Release])"
    using guarded_lock_free [OF es(2), of "[Release]"] by simp
  ultimately show ?thesis using es(2) by blast
qed

lemma SetSingleColor_in_range:
  assumes "unat index < max_leds s"
  shows "\<exists>s'. CircularStrip_SetSingleColor index color s = Inr s' \<and>
           colors s' = (colors s)[unat index := color] \<and>
           pixel_buf s' = (pixel_buf s)[unat index := color] \<and>
           shown s' = (pixel_buf s)[unat index := color] \<and>
           \<not> timer_active s' \<and>
           trace s' = trace s @ [Acquire, TimerStop, BufWrite (unat index), SetPixel (unat index),
                                  Refresh, Release]"
  using assms
  by (simp add: CircularStrip_SetSingleColor_def Let_def max_leds_def unlock_def
      led_strip_refresh_def led_strip_set_pixel_def set_color_def esp_timer_stop_def
      lock_guard_def list_update_beyond)

lemma Breathe_next_stall:
  assumes "red high \<le> red c" and "green high \<le> green c" and "blue high \<le> blue c"
    and "c \<noteq> high"
  shows "Breathe_next low high (True, c) = (True, c)"
proof -
  have "\<not> red c < red high" "\<not> green c < green high" "\<not> blue c < blue high"
    using assms(1-3) by simp_all
  moreover have "\<not> (red c = red high \<and> green c = green high \<and> blue c = blue high)"
    using assms(4) by (cases c; cases high) auto
  ultimately show ?thesis by (simp add: Breathe_next_def Let_def)
qed

section \<open>The claims\<close>

text \<open>
  C1, as amended. Let \<open>m\<close> be the largest channel value in the buffer when \<^verbatim>\<open>FadeOut\<close>
  is installed. Each tick halves every channel, rounding towards zero: after \<open>j\<close> timer
  periods, for every \<open>j\<close>, every pixel is the \<open>j\<close>-fold \<open>halve\<close> of what it was at the
  installation, that is every channel is its value then divided by \<open>2 ^ j\<close>. After \<open>k\<close>
  timer periods, for every \<open>k \<ge> 1\<close> that is at least the bit length
  \<open>floorlog 2 m = \<lfloor>log\<^sub>2 m\<rfloor> + 1\<close> of \<open>m\<close> (at most 8, and 0 when \<open>m = 0\<close>), every channel of
  every pixel is zero, the display has been cleared and the step has stopped the timer
  itself; a further tick delivered by hand leaves the buffer as it is.
\<close>

theorem FadeOut_reaches_zero:
  assumes "led_strip s" and "0 < k" and "floorlog 2 (max_channel_value (colors s)) \<le> k"
  shows "floorlog 2 (max_channel_value (colors s)) \<le> 8 \<and>
         (\<forall>j. \<exists>sj. ticks j (CircularStrip_FadeOut interval_ms s) = Inr sj \<and>
                colors sj = map (halve ^^ j) (colors s) \<and>
                (\<forall>i < max_leds s.
                    unat (red (colors sj ! i)) = unat (red (colors s ! i)) div 2 ^ j \<and>
                    unat (green (colors sj ! i)) = unat (green (colors s ! i)) div 2 ^ j \<and>
                    unat (blue (colors sj ! i)) = unat (blue (colors s ! i)) div 2 ^ j)) \<and>
         (\<exists>s'. ticks k (CircularStrip_FadeOut interval_ms s) = Inr s' \<and>
           colors s' = replicate (max_leds s) black \<and>
           shown s' = replicate (length (pixel_buf s)) black \<and>
           \<not> timer_active s' \<and>
           (\<exists>s''. timer_callback s' = Inr s'' \<and> colors s'' = colors s' \<and> \<not> timer_active s''))"
proof -
  let ?s0 = "CircularStrip_FadeOut interval_ms s"
  obtain j where k: "k = Suc j" using assms(2) by (cases k) auto
  have "max_channel_value (colors s) < 2 ^ k"
    using assms(3) by (simp add: floorlog_le_iff)
  then have below: "below (2 ^ Suc j) (colors ?s0)"
    using StartStripTask_fields [OF assms(1)]
    by (simp add: max_channel_value_less CircularStrip_FadeOut_def k)
  have active: "timer_active ?s0" and cb: "strip_callback ?s0 = Some FadeOutStep"
    and same: "colors ?s0 = colors s"
    using StartStripTask_fields [OF assms(1)] by (simp_all add: CircularStrip_FadeOut_def)
  have halving: "\<exists>sj. ticks i ?s0 = Inr sj \<and>
                colors sj = map (halve ^^ i) (colors s) \<and>
                (\<forall>l < max_leds s.
                    unat (red (colors sj ! l)) = unat (red (colors s ! l)) div 2 ^ i \<and>
                    unat (green (colors sj ! l)) = unat (green (colors s ! l)) div 2 ^ i \<and>
                    unat (blue (colors sj ! l)) = unat (blue (colors s ! l)) div 2 ^ i)" for i
  proof -
    from FadeOut_halving [OF cb, of i] active obtain sj where
      sj: "ticks i ?s0 = Inr sj" "colors sj = map (halve ^^ i) (colors s)"
      unfolding same by blast
    have "unat (red (colors sj ! l)) = unat (red (colors s ! l)) div 2 ^ i \<and>
          unat (green (colors sj ! l)) = unat (green (colors s ! l)) div 2 ^ i \<and>
          unat (blue (colors sj ! l)) = unat (blue (colors s ! l)) div 2 ^ i"
      if "l < max_leds s" for l
      using that halve_funpow [of i "colors s ! l"] by (simp add: sj(2) max_leds_def)
    then show ?thesis using sj by blast
  qed
  from FadeOut_run [OF active cb below] obtain s' where s':
    "ticks k ?s0 = Inr s'" "colors s' = replicate (length (colors ?s0)) black"
    "\<not> timer_active s'" "strip_callback s' = Some FadeOutStep"
    "shown s' = replicate (length (pixel_buf ?s0)) black"
    unfolding k by blast
  have manual: "timer_callback s' = Inr (fade s')"
    using s'(4) by (simp add: FadeOut_callback fade_def)
  have "colors (fade s') = colors s'" by (simp add: fade_colors s'(2))
  moreover have "\<not> timer_active (fade s')" using s'(3) by (simp add: fade_timer)
  ultimately have last: "\<exists>s'. ticks k ?s0 = Inr s' \<and>
           colors s' = replicate (max_leds s) black \<and>
           shown s' = replicate (length (pixel_buf s)) black \<and>
           \<not> timer_active s' \<and>
           (\<exists>s''. timer_callback s' = Inr s'' \<and> colors s'' = colors s' \<and> \<not> timer_active s'')"
    using s' manual StartStripTask_fields [OF assms(1)]
    by (simp add: CircularStrip_FadeOut_def max_leds_def)
  show ?thesis
    using halving last floorlog_max_channel_value [of "colors s"] by blast
qed

text \<open>
  The bound \<open>\<lceil>log\<^sub>2 m\<rceil>\<close> of C1 is one tick short when \<open>m\<close> is a power of two. From the
  connecting colour \<open>{4, 4, 32}\<close> the bound is 5; after 5 ticks the blue channel of
  every pixel is still 1 and the timer still runs.
\<close>

theorem FadeOut_ceillog2_counterexample:
  "ceillog2 (max_channel_value (colors ring6_connecting)) = 5 \<and>
   \<not> isl (ticks 5 (CircularStrip_FadeOut 50 ring6_connecting)) \<and>
   colors (projr (ticks 5 (CircularStrip_FadeOut 50 ring6_connecting)))
     = replicate 6 \<lparr>red = 0, green = 0, blue = 1\<rparr> \<and>
   timer_active (projr (ticks 5 (CircularStrip_FadeOut 50 ring6_connecting)))"
proof -
  let ?s0 = "CircularStrip_FadeOut 50 ring6_connecting"
  have f: "colors ?s0 = colors ring6_connecting" "strip_callback ?s0 = Some FadeOutStep"
    "timer_active ?s0"
    using StartStripTask_fields [OF ring6_connecting_led_strip]
    by (simp_all add: CircularStrip_FadeOut_def)
  have "\<not> max_channel_value (colors ?s0) < 2 ^ 5"
    by (simp add: f ring6_max)
  then have nb: "\<not> below (2 ^ 5) (colors ?s0)"
    by (simp add: max_channel_value_less)
  from FadeOut_progress [OF f(3) f(2) nb] obtain s' where s':
    "ticks 5 ?s0 = Inr s'" "timer_active s'" "colors s' = map (halve ^^ 5) (colors ?s0)"
    by blast
  have c: "colors s' = replicate 6 \<lparr>red = 0, green = 0, blue = 1\<rparr>"
    by (simp add: s'(3) f ring6_connecting_colors halve5)
  have "ceillog2 32 = 5" by code_simp
  then show ?thesis
    using s'(1,2) c by (simp add: ring6_max)
qed

theorem FadeOut_reaches_zero_witness:
  "led_strip ring6_connecting \<and> (0::nat) < 6 \<and>
   floorlog 2 (max_channel_value (colors ring6_connecting)) \<le> 6 \<and>
   (\<exists>s1. ticks 1 (CircularStrip_FadeOut 50 ring6_connecting) = Inr s1 \<and>
           colors s1 = replicate 6 \<lparr>red = 2, green = 2, blue = 16\<rparr>) \<and>
   (\<exists>s'. ticks 6 (CircularStrip_FadeOut 50 ring6_connecting) = Inr s' \<and>
           colors s' = replicate 6 black \<and>
           shown s' = replicate 6 black \<and>
           \<not> timer_active s' \<and>
           (\<exists>s''. timer_callback s' = Inr s'' \<and> colors s'' = colors s' \<and> \<not> timer_active s''))"
proof -
  have fl: "floorlog 2 (max_channel_value (colors ring6_connecting)) \<le> 6"
    unfolding ring6_max by code_simp
  have n: "max_leds ring6_connecting = 6"
    by (simp add: max_leds_def ring6_connecting_colors)
  have pos: "(0::nat) < 6" by simp
  note t = FadeOut_reaches_zero [OF ring6_connecting_led_strip pos fl, of 50]
  have "\<exists>s1. ticks 1 (CircularStrip_FadeOut 50 ring6_connecting) = Inr s1 \<and>
           colors s1 = map (halve ^^ 1) (colors ring6_connecting)"
    using t by blast
  then have one: "\<exists>s1. ticks 1 (CircularStrip_FadeOut 50 ring6_connecting) = Inr s1 \<and>
           colors s1 = replicate 6 \<lparr>red = 2, green = 2, blue = 16\<rparr>"
    by (simp add: ring6_connecting_colors halve1)
  have "\<exists>s'. ticks 6 (CircularStrip_FadeOut 50 ring6_connecting) = Inr s' \<and>
           colors s' = replicate 6 black \<and>
           shown s' = replicate 6 black \<and>
           \<not> timer_active s' \<and>
           (\<exists>s''. timer_callback s' = Inr s'' \<and> colors s'' = colors s' \<and> \<not> timer_active s'')"
    using t by (simp add: ring6_connecting_pixels n)
  then show ?thesis
    using one fl by (simp add: ring6_connecting_led_strip)
qed



text \<open>
  C3, as amended. On a ring of six pixels let \<open>o\<close> be the value of the scroll offset when
  \<^verbatim>\<open>Scroll(low, high, 3)\<close> is installed. Installing sets every pixel of the buffer to
  \<open>low\<close> and leaves the offset as it is. After \<open>k + 1\<close> ticks the pixels at \<open>o + k\<close>,
  \<open>o + k + 1\<close> and \<open>o + k + 2\<close> modulo 6 equal \<open>high\<close> and all others equal \<open>low\<close>, the
  same colours are on the LEDs, and the offset is \<open>o + k + 1\<close> modulo 6: each tick moves
  the window start by one pixel round the ring. With \<open>o = 0\<close> the window of offset \<open>k\<close>
  is therefore shown after \<open>k + 1\<close> ticks.
\<close>

theorem Scroll_window_after_ticks:
  assumes "led_strip s" and "max_leds s = 6" and "i < 6"
  shows "colors (CircularStrip_Scroll low high 3 interval_ms s) = replicate 6 low \<and>
         scroll_offset (CircularStrip_Scroll low high 3 interval_ms s) = scroll_offset s \<and>
         (\<exists>s'. ticks (Suc k) (CircularStrip_Scroll low high 3 interval_ms s) = Inr s' \<and>
           length (colors s') = 6 \<and>
           colors s' ! i =
             (if i = (scroll_offset s + k) mod 6 \<or> i = (scroll_offset s + k + 1) mod 6 \<or>
                 i = (scroll_offset s + k + 2) mod 6
              then high else low) \<and>
           scroll_offset s' = (scroll_offset s + k + 1) mod 6 \<and>
           (length (pixel_buf s) = 6 \<longrightarrow> shown s' = colors s'))"
proof -
  let ?s0 = "CircularStrip_Scroll low high 3 interval_ms s"
  let ?o = "scroll_offset s"
  note inst = Scroll_install [OF assms(1), of low high 3 interval_ms]
  have n: "max_leds ?s0 = 6" using inst assms(2) by (simp add: max_leds_def)
  have pos: "0 < max_leds ?s0" using n by simp
  have a: "timer_active ?s0" and cb: "strip_callback ?s0 = Some (ScrollStep low high 3)"
    and o: "scroll_offset ?s0 = ?o" and p: "pixel_buf ?s0 = pixel_buf s"
    and fill: "colors ?s0 = replicate 6 low"
    using inst assms(2) by simp_all
  from Scroll_ticks [OF a cb pos, of k] obtain s' where s':
    "ticks (Suc k) ?s0 = Inr s'"
    "colors s' = scroll_window 6 (?o + k) 3 low high"
    "scroll_offset s' = (?o + Suc k) mod 6"
    "length (pixel_buf s) = 6 \<longrightarrow> shown s' = colors s'"
    unfolding n o p by auto
  have e: "(\<exists>j \<in> {0..<3}. (?o + k + j) mod 6 = i)
           = (i = (?o + k) mod 6 \<or> i = (?o + k + 1) mod 6 \<or> i = (?o + k + 2) mod 6)"
  proof -
    have "{0..<3::nat} = {0, 1, 2}" by auto
    then show ?thesis by auto
  qed
  have "colors s' ! i = (if \<exists>j \<in> {0..<3}. (?o + k + j) mod 6 = i then high else low)"
    using assms(3) by (simp add: s'(2) scroll_window_def)
  then have "\<exists>s'. ticks (Suc k) ?s0 = Inr s' \<and>
           length (colors s') = 6 \<and>
           colors s' ! i =
             (if i = (?o + k) mod 6 \<or> i = (?o + k + 1) mod 6 \<or> i = (?o + k + 2) mod 6
              then high else low) \<and>
           scroll_offset s' = (?o + k + 1) mod 6 \<and>
           (length (pixel_buf s) = 6 \<longrightarrow> shown s' = colors s')"
    using s' unfolding e by (simp add: length_scroll_window)
  then show ?thesis using fill o by blast
qed

text \<open>
  C3 counts one tick too few. On a ring of six pixels built at the start of the program,
  before the first tick pixel 0 is \<open>low\<close>; after one tick the window is at 0, 1, 2, so pixel 0 is \<open>high\<close> and pixel 3
  is \<open>low\<close>, where the claim puts the window at 1, 2, 3.
\<close>

theorem Scroll_after_offset_ticks_counterexample:
  "colors (CircularStrip_Scroll black starting_blue 3 100 (CircularStrip_ctor 6 program_start)) ! 0 = black \<and>
   \<not> isl (ticks 1 (CircularStrip_Scroll black starting_blue 3 100 (CircularStrip_ctor 6 program_start))) \<and>
   colors (projr (ticks 1 (CircularStrip_Scroll black starting_blue 3 100 (CircularStrip_ctor 6 program_start)))) ! 0
     = starting_blue \<and>
   colors (projr (ticks 1 (CircularStrip_Scroll black starting_blue 3 100 (CircularStrip_ctor 6 program_start)))) ! 3
     = black \<and>
   starting_blue \<noteq> black"
proof -
  let ?s0 = "CircularStrip_Scroll black starting_blue 3 100 (CircularStrip_ctor 6 program_start)"
  note inst = Scroll_install [OF ctor6_fields(1), of black starting_blue 3 100]
  have n: "max_leds ?s0 = 6" using inst ctor6_fields(2) by (simp add: max_leds_def)
  have pos: "0 < max_leds ?s0" using n by simp
  have a: "timer_active ?s0" and cb: "strip_callback ?s0 = Some (ScrollStep black starting_blue 3)"
    and o: "scroll_offset ?s0 = 0"
    using inst by (simp_all add: ctor6_fields)
  from Scroll_ticks [OF a cb pos, of 0] obtain s' where s':
    "ticks 1 ?s0 = Inr s'" "colors s' = scroll_window 6 0 3 black starting_blue"
    unfolding n o by auto
  have three: "{0..<3::nat} = {0, 1, 2}" by auto
  have w: "scroll_window 6 0 3 black starting_blue ! 0 = starting_blue"
    "scroll_window 6 0 3 black starting_blue ! 3 = black"
    by (simp_all add: scroll_window_def three)
  have z: "colors ?s0 ! 0 = black" using inst ctor6_fields(2) by simp
  have "starting_blue \<noteq> black" by (simp add: starting_blue_def black_def)
  then show ?thesis using s' w z by simp
qed

theorem Scroll_window_after_ticks_witness:
  "led_strip (CircularStrip_ctor 6 program_start) \<and>
   max_leds (CircularStrip_ctor 6 program_start) = 6 \<and> (0::nat) < 6 \<and>
   colors (CircularStrip_Scroll black starting_blue 3 100 (CircularStrip_ctor 6 program_start))
     = replicate 6 black \<and>
   scroll_offset (CircularStrip_Scroll black starting_blue 3 100 (CircularStrip_ctor 6 program_start)) = 0 \<and>
   (\<exists>s'. ticks 6 (CircularStrip_Scroll black starting_blue 3 100 (CircularStrip_ctor 6 program_start)) = Inr s' \<and>
          length (colors s') = 6 \<and> colors s' ! 0 = starting_blue \<and> scroll_offset s' = 0 \<and>
          shown s' = colors s')"
proof -
  have i: "(0::nat) < 6" by simp
  have six: "Suc 5 = 6" by simp
  show ?thesis
    using Scroll_window_after_ticks [OF ctor6_fields(1,2) i, of black starting_blue 100 5]
    by (simp add: ctor6_fields six)
qed
text \<open>
  C4. Take a ring on which the two statics of the breathing lambda hold their start
  values: the direction is increasing and the colour is not initialised yet, or equals
  \<open>low\<close>. After \<^verbatim>\<open>Breathe({0,0,0}, {10,10,10})\<close> ten ticks make the current colour exactly
  \<open>{10,10,10}\<close>, with the direction turned to decreasing and every LED showing that
  colour; ten more ticks bring it back to exactly \<open>{0,0,0}\<close>, the direction increasing
  again. For every state \<open>t\<close> and all bounds, the direction after a tick is decreasing
  exactly when the tick was an increasing one that reached \<open>high\<close> in all three
  channels, or a decreasing one that did not reach \<open>low\<close> in all three: the flag flips
  only on a tick that ends with the colour equal to the current bound.
\<close>

theorem Breathe_symmetry:
  assumes "led_strip s" and "breathe_increase s"
    and "breathe_color s = None \<or> breathe_color s = Some black"
  shows "(\<exists>s10 s20.
            ticks 10 (CircularStrip_Breathe black ten interval_ms s) = Inr s10 \<and>
            breathe_color s10 = Some ten \<and> \<not> breathe_increase s10 \<and>
            (length (pixel_buf s) = max_leds s \<longrightarrow> shown s10 = replicate (max_leds s) ten) \<and>
            ticks 10 s10 = Inr s20 \<and>
            breathe_color s20 = Some black \<and> breathe_increase s20 \<and>
            (length (pixel_buf s) = max_leds s \<longrightarrow> shown s20 = replicate (max_leds s) black)) \<and>
         breathe_increase (Breathe_step low high t)
           = (if breathe_increase t then breathe_color (Breathe_step low high t) \<noteq> Some high
              else breathe_color (Breathe_step low high t) = Some low)"
proof -
  let ?s0 = "CircularStrip_Breathe black ten interval_ms s"
  note inst = Breathe_install [OF assms(1), of black ten interval_ms]
  have start: "(breathe_increase ?s0, current_color black ?s0) = (True, black)"
    using inst assms(2,3) by (auto simp add: current_color_def)
  have len0: "length (pixel_buf ?s0) = length (pixel_buf s)" "max_leds ?s0 = max_leds s"
    using inst by simp_all
  from Breathe_ticks [OF inst(1) inst(2), of 10] obtain s10 where s10:
    "ticks 10 ?s0 = Inr s10" "timer_active s10" "strip_callback s10 = Some (BreatheStep black ten)"
    "(breathe_increase s10, current_color black s10) = (False, ten)"
    "breathe_color s10 = Some (current_color black s10)"
    "length (pixel_buf s) = max_leds s \<longrightarrow> shown s10 = replicate (max_leds s) (current_color black s10)"
    "max_leds s10 = max_leds s" "length (pixel_buf s10) = length (pixel_buf s)"
    unfolding start Breathe_next_up len0 by auto
  from Breathe_ticks [OF s10(2) s10(3), of 10] obtain s20 where s20:
    "ticks 10 s10 = Inr s20"
    "(breathe_increase s20, current_color black s20) = (True, black)"
    "breathe_color s20 = Some (current_color black s20)"
    "length (pixel_buf s) = max_leds s \<longrightarrow> shown s20 = replicate (max_leds s) (current_color black s20)"
    unfolding s10(4) Breathe_next_down s10(7,8) by auto
  have flip: "breathe_increase (Breathe_step low high t)
     = (if breathe_increase t then breathe_color (Breathe_step low high t) \<noteq> Some high
        else breathe_color (Breathe_step low high t) = Some low)"
    using Breathe_next_flip [of low high "breathe_increase t" "current_color low t"]
    by (simp add: Breathe_step_fields)
  have "\<exists>s10 s20.
            ticks 10 ?s0 = Inr s10 \<and>
            breathe_color s10 = Some ten \<and> \<not> breathe_increase s10 \<and>
            (length (pixel_buf s) = max_leds s \<longrightarrow> shown s10 = replicate (max_leds s) ten) \<and>
            ticks 10 s10 = Inr s20 \<and>
            breathe_color s20 = Some black \<and> breathe_increase s20 \<and>
            (length (pixel_buf s) = max_leds s \<longrightarrow> shown s20 = replicate (max_leds s) black)"
    using s10(1,4,5,6) s20 by auto
  then show ?thesis using flip by blast
qed

text \<open>
  The ring of six pixels built at the start of the program is such a ring.
\<close>

theorem Breathe_symmetry_witness:
  "led_strip (CircularStrip_ctor 6 program_start) \<and>
   breathe_increase (CircularStrip_ctor 6 program_start) \<and>
   breathe_color (CircularStrip_ctor 6 program_start) = None \<and>
   (\<exists>s10 s20.
      ticks 10 (CircularStrip_Breathe black ten 20 (CircularStrip_ctor 6 program_start)) = Inr s10 \<and>
      breathe_color s10 = Some ten \<and> \<not> breathe_increase s10 \<and>
      shown s10 = replicate 6 ten \<and>
      ticks 10 s10 = Inr s20 \<and>
      breathe_color s20 = Some black \<and> breathe_increase s20 \<and>
      shown s20 = replicate 6 black)"
proof -
  have f: "led_strip (CircularStrip_ctor 6 program_start)"
    "breathe_increase (CircularStrip_ctor 6 program_start)"
    "breathe_color (CircularStrip_ctor 6 program_start) = None"
    "max_leds (CircularStrip_ctor 6 program_start) = 6"
    "length (pixel_buf (CircularStrip_ctor 6 program_start)) = 6"
    by (simp_all add: CircularStrip_ctor_def program_start_def max_leds_def)
  have c: "breathe_color (CircularStrip_ctor 6 program_start) = None \<or>
           breathe_color (CircularStrip_ctor 6 program_start) = Some black"
    using f(3) by simp
  show ?thesis
    using Breathe_symmetry [OF f(1,2) c, of 20] by (simp add: f)
qed
text \<open>
  C5. On a ring of six pixels \<^verbatim>\<open>SetSingleColor(6, color)\<close> is not rejected: the
  function has no range check, so after taking the lock and stopping the timer it
  stores past the end of \<^verbatim>\<open>colors_\<close>.
\<close>

theorem SetSingleColor_out_of_range:
  "unat (6 :: 8 word) \<ge> max_leds (CircularStrip_ctor 6 program_start) \<and>
   CircularStrip_SetSingleColor 6 \<lparr>red = 32, green = 4, blue = 4\<rparr> (CircularStrip_ctor 6 program_start)
     = Inl OutOfBoundsWrite"
  by (simp add: CircularStrip_SetSingleColor_def Let_def esp_timer_stop_def lock_guard_def
      CircularStrip_ctor_def program_start_def max_leds_def)

text \<open>
  C6. \<^verbatim>\<open>Blink\<close> on a ring of six pixels stores into all six entries of \<^verbatim>\<open>colors_\<close>
  before \<^verbatim>\<open>StartStripTask\<close> takes the mutex, and so does \<^verbatim>\<open>Scroll\<close>. \<^verbatim>\<open>SetAllColor\<close>
  makes its stores with the mutex held, and so does a timer tick of the installed blink
  step.
\<close>

theorem Blink_writes_outside_lock:
  "trace (CircularStrip_Blink starting_blue 500 (CircularStrip_ctor 6 program_start))
     = Clear # map BufWrite [0..<6] @ [Acquire, TimerStop, TimerStart 500000, Release] \<and>
   \<not> writes_guarded False (trace (CircularStrip_Blink starting_blue 500 (CircularStrip_ctor 6 program_start))) \<and>
   \<not> writes_guarded False
       (trace (CircularStrip_Scroll black starting_blue 3 100 (CircularStrip_ctor 6 program_start))) \<and>
   writes_guarded False (trace (CircularStrip_SetAllColor starting_blue (CircularStrip_ctor 6 program_start))) \<and>
   \<not> isl (timer_tick ring6_wifi) \<and>
   writes_guarded False (drop (length (trace ring6_wifi)) (trace (projr (timer_tick ring6_wifi))))"
proof -
  have ne: "[0..<6::nat] \<noteq> []" by simp
  have b: "trace (CircularStrip_Blink starting_blue 500 (CircularStrip_ctor 6 program_start))
     = Clear # map BufWrite [0..<6] @ [Acquire, TimerStop, TimerStart 500000, Release]"
    using Blink_trace [OF ctor6_fields(1), of starting_blue 500]
    by (simp only: ctor_trace ctor6_fields) simp
  have s: "trace (CircularStrip_Scroll black starting_blue 3 100 (CircularStrip_ctor 6 program_start))
     = Clear # map BufWrite [0..<6] @ [Acquire, TimerStop, TimerStart 100000, Release]"
    using Scroll_trace [OF ctor6_fields(1), of black starting_blue 3 100]
    by (simp only: ctor_trace ctor6_fields) simp
  have a: "trace (CircularStrip_SetAllColor starting_blue (CircularStrip_ctor 6 program_start))
     = Clear # Acquire # TimerStop # concat (map (\<lambda>i. [BufWrite i, SetPixel i]) [0..<6])
         @ [Refresh, Release]"
    using SetAllColor_trace [of starting_blue "CircularStrip_ctor 6 program_start"]
    by (simp only: ctor_trace ctor6_fields) simp
  have t: "timer_tick ring6_wifi = Inr (unlock (Blink_step (lock_guard ring6_wifi)))"
    by (rule Blink_tick [OF ring6_wifi_fields(2,3)])
  then have "timer_callback ring6_wifi = Inr (unlock (Blink_step (lock_guard ring6_wifi)))"
    using ring6_wifi_fields(2) by (simp add: timer_tick_def)
  from timer_callback_guarded [OF this, of False] obtain es where
    "trace (unlock (Blink_step (lock_guard ring6_wifi))) = trace ring6_wifi @ Acquire # es @ [Release]"
    "writes_guarded False (Acquire # es @ [Release])"
    by blast
  then have g: "writes_guarded False
      (drop (length (trace ring6_wifi)) (trace (projr (timer_tick ring6_wifi))))"
    by (simp add: t)
  show ?thesis
    unfolding b s a using unguarded_writes [OF ne] g
    by (simp add: guarded_held_pairs t del: upt_Suc)
qed

text \<open>
  C7, as amended. In the idle state the ring installs \<^verbatim>\<open>FadeOut(50)\<close>, the single
  pixel calls \<^verbatim>\<open>TurnOff\<close>, and the PWM LED sets the idle brightness of 5 percent and
  calls \<^verbatim>\<open>TurnOn\<close>.
\<close>

theorem idle_binding:
  assumes "GetDeviceState app = kDeviceStateIdle"
  shows "CircularStrip_OnStateChanged app cs = CircularStrip_FadeOut 50 cs \<and>
         SingleLed_OnStateChanged app sl = SingleLed_TurnOff sl \<and>
         GpioLed_OnStateChanged app gl = GpioLed_TurnOn (GpioLed_SetBrightness 5 gl)"
  using assms
  by (simp add: CircularStrip_OnStateChanged_def SingleLed_OnStateChanged_def
      GpioLed_OnStateChanged_def Let_def)

text \<open>
  C7 fails for the PWM LED: in the idle state it shines steadily at duty 409 of 8191,
  with no fade and no blink timer running, where \<^verbatim>\<open>TurnOff\<close> would put out duty 0.
\<close>

theorem idle_GpioLed_counterexample:
  "ledc_output (GpioLed_OnStateChanged idle_app GpioLed_ctor) = 409 \<and>
   \<not> ledc_fading (GpioLed_OnStateChanged idle_app GpioLed_ctor) \<and>
   \<not> gl_timer_active (GpioLed_OnStateChanged idle_app GpioLed_ctor) \<and>
   ledc_output (GpioLed_TurnOff GpioLed_ctor) = 0 \<and>
   GpioLed_OnStateChanged idle_app GpioLed_ctor \<noteq> GpioLed_TurnOff GpioLed_ctor"
proof -
  have o: "ledc_output (GpioLed_OnStateChanged idle_app GpioLed_ctor) = 409"
    by (simp add: idle_app_def GpioLed_OnStateChanged_def GpioLed_TurnOn_def
        GpioLed_SetBrightness_def GpioLed_ctor_def LEDC_DUTY_def ledc_update_duty_def
        ledc_set_duty_def ledc_fade_stop_def gl_timer_stop_def)
  have f: "ledc_output (GpioLed_TurnOff GpioLed_ctor) = 0"
    by (simp add: GpioLed_TurnOff_def GpioLed_ctor_def ledc_update_duty_def
        ledc_set_duty_def ledc_fade_stop_def gl_timer_stop_def)
  have "GpioLed_OnStateChanged idle_app GpioLed_ctor \<noteq> GpioLed_TurnOff GpioLed_ctor"
  proof
    assume "GpioLed_OnStateChanged idle_app GpioLed_ctor = GpioLed_TurnOff GpioLed_ctor"
    then have "ledc_output (GpioLed_OnStateChanged idle_app GpioLed_ctor)
                = ledc_output (GpioLed_TurnOff GpioLed_ctor)" by simp
    then show False by (simp add: o f)
  qed
  moreover have "\<not> ledc_fading (GpioLed_OnStateChanged idle_app GpioLed_ctor) \<and>
      \<not> gl_timer_active (GpioLed_OnStateChanged idle_app GpioLed_ctor)"
    by (simp add: idle_app_def GpioLed_OnStateChanged_def GpioLed_TurnOn_def
        GpioLed_SetBrightness_def GpioLed_ctor_def LEDC_DUTY_def ledc_update_duty_def
        ledc_set_duty_def ledc_fade_stop_def gl_timer_stop_def)
  ultimately show ?thesis using o f by simp
qed

theorem idle_binding_witness:
  "GetDeviceState idle_app = kDeviceStateIdle \<and>
   CircularStrip_OnStateChanged idle_app (CircularStrip_ctor 6 program_start) = CircularStrip_FadeOut 50 (CircularStrip_ctor 6 program_start) \<and>
   SingleLed_OnStateChanged idle_app SingleLed_ctor = SingleLed_TurnOff SingleLed_ctor \<and>
   GpioLed_OnStateChanged idle_app GpioLed_ctor = GpioLed_TurnOn (GpioLed_SetBrightness 5 GpioLed_ctor)"
proof -
  have i: "GetDeviceState idle_app = kDeviceStateIdle" by (simp add: idle_app_def)
  show ?thesis
    using idle_binding [OF i, of "CircularStrip_ctor 6 program_start" SingleLed_ctor GpioLed_ctor] i by simp
qed





text \<open>
  C10. For every \<open>times > 0\<close> and every interval, \<^verbatim>\<open>SingleLed::Blink\<close> sets the counter
  to \<open>2 * times\<close> and starts the timer. For every tick number \<open>k\<close> from 1 to
  \<open>2 * times\<close>: the counter after the tick is \<open>2 * times - k\<close>; the LED shows the
  stored colour when that counter is odd and is cleared when it is even; the timer
  still runs exactly when \<open>k < 2 * times\<close>; and the counter is zero exactly when
  \<open>k = 2 * times\<close>. So after exactly \<open>2 * times\<close> ticks the counter is zero, the LED is
  cleared and the timer has stopped itself.
\<close>

theorem SingleLed_Blink_self_terminates:
  assumes "sl_led_strip s" and "0 <s n_times" and "0 < k" and "k \<le> 2 * unat n_times"
  shows "sl_blink_counter (SingleLed_Blink n_times interval_ms s) = n_times * 2 \<and>
         unat (n_times * 2) = 2 * unat n_times \<and>
         sl_timer_active (SingleLed_Blink n_times interval_ms s) \<and>
         sl_blink_counter (SingleLed_ticks k (SingleLed_Blink n_times interval_ms s))
           = n_times * 2 - of_nat k \<and>
         sl_shown (SingleLed_ticks k (SingleLed_Blink n_times interval_ms s))
           = (if odd (sl_blink_counter (SingleLed_ticks k (SingleLed_Blink n_times interval_ms s)))
              then \<lparr>red = sl_r s, green = sl_g s, blue = sl_b s\<rparr> else black) \<and>
         odd (sl_blink_counter (SingleLed_ticks k (SingleLed_Blink n_times interval_ms s))) = odd k \<and>
         sl_timer_active (SingleLed_ticks k (SingleLed_Blink n_times interval_ms s))
           = (k < 2 * unat n_times) \<and>
         (sl_blink_counter (SingleLed_ticks k (SingleLed_Blink n_times interval_ms s)) = 0)
           = (k = 2 * unat n_times)"
proof -
  let ?s0 = "SingleLed_Blink n_times interval_ms s"
  have u: "unat (n_times * 2) = 2 * unat n_times"
    using pos_signed_unat [OF assms(2)] by (simp add: unat_twice)
  have s0: "sl_blink_counter ?s0 = n_times * 2" "sl_timer_active ?s0"
    "sl_color ?s0 = \<lparr>red = sl_r s, green = sl_g s, blue = sl_b s\<rparr>"
    using assms(1) by (simp_all add: SingleLed_Blink_def SingleLed_StartBlinkTask_def sl_color_def)
  obtain j where k: "k = Suc j" using assms(3) by (cases k) auto
  have le: "Suc j \<le> unat (sl_blink_counter ?s0)" using assms(4) u s0 k by simp
  note run = SingleLed_run [OF s0(2) le]
  have par: "odd (n_times * 2 - of_nat k) = odd k"
    by simp
  have z: "(n_times * 2 - of_nat k = 0) = (k = 2 * unat n_times)"
  proof
    assume "n_times * 2 - of_nat k = 0"
    then have "n_times * 2 = of_nat k" by simp
    then have "unat (n_times * 2) = unat (of_nat k :: 32 word)" by simp
    moreover have "k < 2 ^ 32" using assms(4) pos_signed_unat [OF assms(2)] by simp
    ultimately show "k = 2 * unat n_times" using u by (simp add: unat_of_nat)
  next
    assume "k = 2 * unat n_times"
    then have "of_nat k = (of_nat (unat (n_times * 2)) :: 32 word)" using u by simp
    then show "n_times * 2 - of_nat k = 0" by simp
  qed
  show ?thesis
    using run s0 u par z unfolding k [symmetric] by simp
qed

theorem SingleLed_Blink_self_terminates_witness:
  "sl_led_strip blue_pixel \<and> 0 <s (1 :: 32 word) \<and>
   sl_blink_counter (SingleLed_BlinkOnce blue_pixel) = 2 \<and>
   sl_timer_active (SingleLed_BlinkOnce blue_pixel) \<and>
   sl_blink_counter (SingleLed_ticks 1 (SingleLed_BlinkOnce blue_pixel)) = 1 \<and>
   sl_shown (SingleLed_ticks 1 (SingleLed_BlinkOnce blue_pixel)) = \<lparr>red = 0, green = 0, blue = 4\<rparr> \<and>
   sl_timer_active (SingleLed_ticks 1 (SingleLed_BlinkOnce blue_pixel)) \<and>
   sl_blink_counter (SingleLed_ticks 2 (SingleLed_BlinkOnce blue_pixel)) = 0 \<and>
   sl_shown (SingleLed_ticks 2 (SingleLed_BlinkOnce blue_pixel)) = black \<and>
   \<not> sl_timer_active (SingleLed_ticks 2 (SingleLed_BlinkOnce blue_pixel))"
proof -
  have h: "sl_led_strip blue_pixel" "0 <s (1 :: 32 word)"
    by (simp_all add: blue_pixel_def SingleLed_SetColor_def SingleLed_ctor_def word_sless_alt)
  have c: "sl_r blue_pixel = 0" "sl_g blue_pixel = 0" "sl_b blue_pixel = 4"
    by (simp_all add: blue_pixel_def SingleLed_SetColor_def SingleLed_ctor_def)
  have k1: "(0::nat) < 1" "(1::nat) \<le> 2 * unat (1 :: 32 word)" by simp_all
  have k2: "(0::nat) < 2" "(2::nat) \<le> 2 * unat (1 :: 32 word)" by simp_all
  show ?thesis
    using SingleLed_Blink_self_terminates [OF h k1, of 100]
      SingleLed_Blink_self_terminates [OF h k2, of 100] h c
    by (simp add: SingleLed_BlinkOnce_def)
qed

end
